theory Spec2Isabelle
  imports Main "HOL-Library.Char_ord" "HOL-Library.List_Lexorder" "HOL-Library.Log_Nat"
begin

section \<open>The transfer planning engine of \<open>app.py\<close>\<close>

text \<open>
  The engine is the body of the "Generate Transfer List" handler of \<open>app.py\<close>
  (lines 17 to 137): it cleans the table, builds the two dictionaries \<open>need\<close> and
  \<open>availability\<close>, and runs two greedy stages that call \<open>apply_transfer\<close>.

  The engine is written once for every quantity type \<open>'q\<close> that has a zero, the two
  comparisons and a subtraction, and is read at two types: \<open>int\<close> for a column of whole
  numbers, which pandas hands to Python as unbounded integers, and \<open>float64\<close> below for
  a column of IEEE doubles (any fractional, coerced or infinite cell makes the column
  one). Properties that do not depend on how a difference is rounded are stated for
  every linearly ordered ring, of which \<open>int\<close> is one.
\<close>

subsection \<open>Data\<close>

text \<open>
  A depot or item code after \<open>astype(str)\<close> (lines 27 and 28). An empty cell becomes the
  string \<open>nan\<close> under pandas before version 3, and stays the missing value NaN from
  version 3 on: that cell is \<open>None\<close>.
\<close>

type_synonym code = "string option"

type_synonym key = "code \<times> code"

text \<open>
  One row of the table after lines 27 to 32: the five required columns, region manager
  ("Bolge Muduru"), "Depo Kodu", "Madde Kodu", need ("Ihtiyac") and
  "Transfer Edilebilir". An empty region cell is \<open>None\<close>. The numeric cells are the
  values left by \<open>pd.to_numeric(..., errors="coerce").fillna(0)\<close>.
\<close>

record 'q row =
  bolge_muduru :: "string option"
  depo_kodu :: code
  madde_kodu :: code
  ihtiyac :: 'q
  transfer_edilebilir :: 'q

text \<open>
  The flag "Transfer Tipi": "Bolge ici" (inside the region, Stage 1) or "Bolge disi"
  (outside the region, Stage 2).
\<close>

datatype tipi = Bolge_ici | Bolge_disi

text \<open>One dictionary appended to \<open>transfer_list\<close> (lines 48 to 54).\<close>

record 'q transfer =
  transfer_tipi :: tipi
  gonderen_depo :: code
  alan_depo :: code
  transfer_madde :: code
  transfer_miktari :: 'q

text \<open>The three objects the closure \<open>apply_transfer\<close> mutates (lines 39 to 42).\<close>

record 'q state =
  need :: "key \<rightharpoonup> 'q"
  availability :: "key \<rightharpoonup> 'q"
  transfer_list :: "'q transfer list"

text \<open>
  The only exception the engine itself can raise: a subscript on a missing key. It is
  kept with the three objects as they are when it is raised: what the call has mutated
  before the failing subscript stays mutated.
\<close>

datatype 'q error = KeyError key "'q state"

subsection \<open>Python's comparisons\<close>

text \<open>
  \<open>a == b\<close> on two code cells (lines 66, 73, 88 and 128): NaN is not equal to itself.
  Dictionary keys, \<open>unique()\<close> and \<open>drop_duplicates()\<close> do take NaN for one value, so
  they use the equality of \<open>code\<close>.
\<close>

definition py_eq :: "code \<Rightarrow> code \<Rightarrow> bool" where
  "py_eq a b \<longleftrightarrow> a \<noteq> None \<and> a = b"

text \<open>\<open>min(a, b)\<close>: the first argument unless the second is smaller.\<close>

definition py_min :: "'q::ord \<Rightarrow> 'q \<Rightarrow> 'q" where
  "py_min a b = (if b < a then b else a)"

subsection \<open>IEEE doubles\<close>

text \<open>
  A double is NaN, an infinity, or finite: an integer number of units of \<open>2 ^ - 1074\<close>,
  the smallest positive double (\<open>Finite n\<close> is \<open>n * 2 ^ - 1074\<close>; the sign of zero is
  not kept, no comparison of the engine sees it). A difference is computed exactly and
  rounded to 53 significant bits, ties to even; from \<open>2 ^ 1024\<close> on, which is
  \<open>overflow_units\<close> units, it is an infinity.
\<close>

datatype float64 = Finite int | PInf | NInf | NaN

definition round_half_even :: "int \<Rightarrow> nat \<Rightarrow> int" where
  "round_half_even a k =
     (let q = a div 2 ^ k; r = a mod 2 ^ k; h = 2 ^ (k - 1)
      in if r < h \<or> (r = h \<and> even q) then q else q + 1)"

definition overflow_units :: int where
  "overflow_units = 2 ^ 2098"

definition round_units :: "int \<Rightarrow> float64" where
  "round_units d =
     (let k = bitlen \<bar>d\<bar> - 53 in
      if k \<le> 0 then Finite d
      else
        let r = round_half_even \<bar>d\<bar> (nat k) * 2 ^ nat k in
        if overflow_units \<le> r then (if 0 < d then PInf else NInf)
        else Finite (sgn d * r))"

fun float64_minus :: "float64 \<Rightarrow> float64 \<Rightarrow> float64" where
  "float64_minus NaN y = NaN"
| "float64_minus x NaN = NaN"
| "float64_minus (Finite a) (Finite b) = round_units (a - b)"
| "float64_minus (Finite a) PInf = NInf"
| "float64_minus (Finite a) NInf = PInf"
| "float64_minus PInf PInf = NaN"
| "float64_minus PInf y = PInf"
| "float64_minus NInf NInf = NaN"
| "float64_minus NInf y = NInf"

fun float64_less :: "float64 \<Rightarrow> float64 \<Rightarrow> bool" where
  "float64_less (Finite a) (Finite b) = (a < b)"
| "float64_less (Finite a) PInf = True"
| "float64_less NInf (Finite b) = True"
| "float64_less NInf PInf = True"
| "float64_less x y = False"

fun float64_less_eq :: "float64 \<Rightarrow> float64 \<Rightarrow> bool" where
  "float64_less_eq (Finite a) (Finite b) = (a \<le> b)"
| "float64_less_eq NaN y = False"
| "float64_less_eq x NaN = False"
| "float64_less_eq x PInf = True"
| "float64_less_eq NInf y = True"
| "float64_less_eq x y = False"

instantiation float64 :: "{zero, ord, minus}"
begin

definition zero_float64 :: float64 where
  "zero_float64 = Finite 0"

definition minus_float64 :: "float64 \<Rightarrow> float64 \<Rightarrow> float64" where
  "minus_float64 = float64_minus"

definition less_float64 :: "float64 \<Rightarrow> float64 \<Rightarrow> bool" where
  "less_float64 = float64_less"

definition less_eq_float64 :: "float64 \<Rightarrow> float64 \<Rightarrow> bool" where
  "less_eq_float64 = float64_less_eq"

instance ..

end

text \<open>The largest finite double, in units, and the doubles that a numeric cell can hold.\<close>

definition max_units :: int where
  "max_units = (2 ^ 53 - 1) * 2 ^ 2045"

fun finite64 :: "float64 \<Rightarrow> bool" where
  "finite64 (Finite n) = (\<bar>n\<bar> \<le> max_units)"
| "finite64 x = False"

subsection \<open>Loading\<close>

text \<open>Lines 35 and 36: \<open>df.loc[df[c] < 0, c] = 0\<close>.\<close>

definition clip_negative :: "'q::{zero,ord} \<Rightarrow> 'q" where
  "clip_negative x = (if x < 0 then 0 else x)"

definition clean_row :: "'q::{zero,ord} row \<Rightarrow> 'q row" where
  "clean_row r = r\<lparr>ihtiyac := clip_negative (ihtiyac r),
                   transfer_edilebilir := clip_negative (transfer_edilebilir r)\<rparr>"

text \<open>
  \<open>Series.to_dict()\<close> on an indexed column: the pairs are inserted in row order, so a
  later row with the same (depot, item) index overwrites an earlier one.
\<close>

definition to_dict :: "('k \<times> 'v) list \<Rightarrow> ('k \<rightharpoonup> 'v)" where
  "to_dict kvs = fold (\<lambda>(k, v) m. m(k \<mapsto> v)) kvs Map.empty"

definition row_key :: "'q row \<Rightarrow> key" where
  "row_key r = (depo_kodu r, madde_kodu r)"

definition initial_state :: "'q row list \<Rightarrow> 'q state" where
  "initial_state df =
     \<lparr>need = to_dict (map (\<lambda>r. (row_key r, ihtiyac r)) df),
      availability = to_dict (map (\<lambda>r. (row_key r, transfer_edilebilir r)) df),
      transfer_list = []\<rparr>"

text \<open>\<open>d.get(k, 0)\<close>.\<close>

definition dict_get :: "('k \<rightharpoonup> 'q::zero) \<Rightarrow> 'k \<Rightarrow> 'q" where
  "dict_get m k = (case m k of None \<Rightarrow> 0 | Some v \<Rightarrow> v)"

subsection \<open>The recorder\<close>

text \<open>
  Lines 44 to 56. The row is appended first; the two subscripted subtractions follow,
  and each raises \<open>KeyError\<close> when its key is missing.
\<close>

definition apply_transfer ::
  "'q::{zero,ord,minus} state \<Rightarrow> code \<Rightarrow> code \<Rightarrow> code \<Rightarrow> 'q \<Rightarrow> tipi \<Rightarrow> 'q error + 'q state" where
  "apply_transfer st sender_depot receiver_depot item_code qty tip =
     (if qty \<le> 0 then Inr st
      else
        let st1 = st\<lparr>transfer_list := transfer_list st @
                      [\<lparr>transfer_tipi = tip, gonderen_depo = sender_depot,
                        alan_depo = receiver_depot, transfer_madde = item_code,
                        transfer_miktari = qty\<rparr>]\<rparr>
        in case availability st1 (sender_depot, item_code) of
             None \<Rightarrow> Inl (KeyError (sender_depot, item_code) st1)
           | Some a \<Rightarrow>
               let st2 = st1\<lparr>availability :=
                               (availability st1)((sender_depot, item_code) \<mapsto> a - qty)\<rparr>
               in case need st2 (receiver_depot, item_code) of
                    None \<Rightarrow> Inl (KeyError (receiver_depot, item_code) st2)
                  | Some n \<Rightarrow>
                      Inr (st2\<lparr>need := (need st2)((receiver_depot, item_code) \<mapsto> n - qty)\<rparr>))"

subsection \<open>The greedy double loop\<close>

text \<open>
  Lines 86 to 97 and, with the other flag, lines 126 to 137: the loop over the sender
  rows for one receiver. \<open>r_need\<close> is the receiver's local counter.
\<close>

fun senders_loop ::
  "tipi \<Rightarrow> code \<Rightarrow> code \<Rightarrow> code list \<Rightarrow> 'q::{zero,ord,minus} \<Rightarrow> 'q state \<Rightarrow> 'q error + 'q state" where
  "senders_loop tip recv item_code [] r_need st = Inr st"
| "senders_loop tip recv item_code (send # senders) r_need st =
     (if py_eq send recv then senders_loop tip recv item_code senders r_need st
      else
        let s_avail = dict_get (availability st) (send, item_code) in
        if s_avail \<le> 0 \<or> r_need \<le> 0 then senders_loop tip recv item_code senders r_need st
        else
          let qty = py_min r_need s_avail in
          case apply_transfer st send recv item_code qty tip of
            Inl e \<Rightarrow> Inl e
          | Inr st' \<Rightarrow> senders_loop tip recv item_code senders (r_need - qty) st')"

text \<open>Lines 80 to 97 and lines 120 to 137: the loop over the receiver rows.\<close>

fun receivers_loop ::
  "tipi \<Rightarrow> code \<Rightarrow> code list \<Rightarrow> code list \<Rightarrow> 'q::{zero,ord,minus} state \<Rightarrow> 'q error + 'q state" where
  "receivers_loop tip item_code senders [] st = Inr st"
| "receivers_loop tip item_code senders (recv # receivers) st =
     (let r_need = dict_get (need st) (recv, item_code) in
      if r_need \<le> 0 then receivers_loop tip item_code senders receivers st
      else
        case senders_loop tip recv item_code senders r_need st of
          Inl e \<Rightarrow> Inl e
        | Inr st' \<Rightarrow> receivers_loop tip item_code senders receivers st')"

subsection \<open>Candidate sets\<close>

text \<open>
  \<open>sort_values(column, ascending=False)\<close> is a pandas call; the source passes no
  \<open>kind\<close>, so the algorithm is pandas' default. The engine is therefore modelled for an
  arbitrary sorting function \<open>srt\<close> on the two-column frame (depot, value).

  \<open>candidates\<close> is lines 66 to 68 (and 73 to 75, 107 to 109, 114 to 116): attach the
  looked-up value to every depot, keep the strictly positive ones, sort.
\<close>

type_synonym 'q sorter = "(code \<times> 'q) list \<Rightarrow> (code \<times> 'q) list"

definition candidates ::
  "'q::{zero,ord} sorter \<Rightarrow> (key \<rightharpoonup> 'q) \<Rightarrow> code list \<Rightarrow> code \<Rightarrow> (code \<times> 'q) list" where
  "candidates srt d depots item_code =
     srt (filter (\<lambda>(depot, v). 0 < v) (map (\<lambda>depot. (depot, dict_get d (depot, item_code))) depots))"

text \<open>
  The body shared by the two stages for one item code (lines 65 to 97 with
  \<open>depots\<close> the depots of the group that have a row for the item, lines 106 to 137 with
  \<open>depots\<close> every depot): the text of the two stages differs only in that frame and in
  the flag.
\<close>

definition match_item ::
  "tipi \<Rightarrow> 'q::{zero,ord,minus} sorter \<Rightarrow> code list \<Rightarrow> code \<Rightarrow> 'q state \<Rightarrow> 'q error + 'q state" where
  "match_item tip srt depots item_code st =
     (let receivers = candidates srt (need st) depots item_code in
      if receivers = [] then Inr st
      else
        let senders = candidates srt (availability st) depots item_code in
        if senders = [] then Inr st
        else receivers_loop tip item_code (map fst senders) (map fst receivers) st)"

subsection \<open>The two stages\<close>

text \<open>A \<open>for\<close> loop whose body may raise.\<close>

fun for_each :: "('a \<Rightarrow> 's \<Rightarrow> 'e + 's) \<Rightarrow> 'a list \<Rightarrow> 's \<Rightarrow> 'e + 's" where
  "for_each body [] st = Inr st"
| "for_each body (x # xs) st =
     (case body x st of Inl e \<Rightarrow> Inl e | Inr st' \<Rightarrow> for_each body xs st')"

text \<open>\<open>Series.unique()\<close> and \<open>drop_duplicates()\<close>: the first occurrence of each value, in order.\<close>

fun unique :: "'a list \<Rightarrow> 'a list" where
  "unique [] = []"
| "unique (x # xs) = x # filter (\<lambda>y. y \<noteq> x) (unique xs)"

text \<open>
  \<open>df.groupby\<close> on the region manager column: one group per region value, in ascending
  order of the value; rows with an empty region are in no group.
\<close>

definition groupby_bolge :: "'q row list \<Rightarrow> (string \<times> 'q row list) list" where
  "groupby_bolge df =
     map (\<lambda>manager. (manager, filter (\<lambda>r. bolge_muduru r = Some manager) df))
         (sort (unique (List.map_filter bolge_muduru df)))"

text \<open>The frame \<open>group[group["Madde Kodu"] == item_code][["Depo Kodu"]].drop_duplicates()\<close>.\<close>

definition group_depots :: "'q row list \<Rightarrow> code \<Rightarrow> code list" where
  "group_depots grp item_code =
     unique (map depo_kodu (filter (\<lambda>r. py_eq (madde_kodu r) item_code) grp))"

definition stage1 ::
  "'q::{zero,ord,minus} sorter \<Rightarrow> 'q row list \<Rightarrow> 'q state \<Rightarrow> 'q error + 'q state" where
  "stage1 srt df st =
     for_each
       (\<lambda>(manager, grp).
          for_each (\<lambda>item_code. match_item Bolge_ici srt (group_depots grp item_code) item_code)
                   (unique (map madde_kodu grp)))
       (groupby_bolge df) st"

definition stage2 ::
  "'q::{zero,ord,minus} sorter \<Rightarrow> 'q row list \<Rightarrow> 'q state \<Rightarrow> 'q error + 'q state" where
  "stage2 srt df st =
     (let all_items = unique (map madde_kodu df);
          all_depots = unique (map depo_kodu df)
      in for_each (\<lambda>item_code. match_item Bolge_disi srt all_depots item_code) all_items st)"

text \<open>Lines 17 to 137 as one function of the loaded table.\<close>

definition generate_transfer_list ::
  "'q::{zero,ord,minus} sorter \<Rightarrow> 'q row list \<Rightarrow> 'q error + 'q state" where
  "generate_transfer_list srt data =
     (let df = map clean_row data in
      case stage1 srt df (initial_state df) of
        Inl e \<Rightarrow> Inl e
      | Inr st \<Rightarrow> stage2 srt df st)"

text \<open>
  A sorter for concrete runs: a stable insertion sort in descending order of the value,
  which keeps rows of equal value in frame order.
\<close>

fun insert_desc :: "(code \<times> 'q::ord) \<Rightarrow> (code \<times> 'q) list \<Rightarrow> (code \<times> 'q) list" where
  "insert_desc x [] = [x]"
| "insert_desc x (y # ys) = (if snd x < snd y then y # insert_desc x ys else x # y # ys)"

definition sort_values_desc :: "'q::ord sorter" where
  "sort_values_desc xs = foldr insert_desc xs []"

subsection \<open>Example tables\<close>

text \<open>
  Three depots of region R1 and one of region R2, one item: A and B can each send 4,
  C needs 10, D can send 5. The negative need of B is clipped at loading.
\<close>

definition example_rows :: "int row list" where
  "example_rows =
     [\<lparr>bolge_muduru = Some ''R1'', depo_kodu = Some ''A'', madde_kodu = Some ''X'', ihtiyac = 0, transfer_edilebilir = 4\<rparr>,
      \<lparr>bolge_muduru = Some ''R1'', depo_kodu = Some ''B'', madde_kodu = Some ''X'', ihtiyac = - 3, transfer_edilebilir = 4\<rparr>,
      \<lparr>bolge_muduru = Some ''R1'', depo_kodu = Some ''C'', madde_kodu = Some ''X'', ihtiyac = 10, transfer_edilebilir = 0\<rparr>,
      \<lparr>bolge_muduru = Some ''R2'', depo_kodu = Some ''D'', madde_kodu = Some ''X'', ihtiyac = 0, transfer_edilebilir = 5\<rparr>]"

text \<open>
  A table whose needs are all zero after clipping, and one whose transferable
  quantities are.
\<close>

definition zero_need_rows :: "int row list" where
  "zero_need_rows =
     [\<lparr>bolge_muduru = Some ''R1'', depo_kodu = Some ''A'', madde_kodu = Some ''X'', ihtiyac = - 2, transfer_edilebilir = 7\<rparr>,
      \<lparr>bolge_muduru = Some ''R1'', depo_kodu = Some ''B'', madde_kodu = Some ''X'', ihtiyac = 0, transfer_edilebilir = 3\<rparr>]"

definition zero_availability_rows :: "int row list" where
  "zero_availability_rows =
     [\<lparr>bolge_muduru = Some ''R1'', depo_kodu = Some ''A'', madde_kodu = Some ''X'', ihtiyac = 6, transfer_edilebilir = 0\<rparr>,
      \<lparr>bolge_muduru = Some ''R2'', depo_kodu = Some ''B'', madde_kodu = Some ''X'', ihtiyac = 1, transfer_edilebilir = - 4\<rparr>]"

text \<open>
  A table whose first row has an empty "Depo Kodu" cell, as pandas 3 and later load
  it: the cell is still NaN after \<open>astype(str)\<close>. That depot needs 4 and can send 3 of
  item X; depot B of the same region can send 1.
\<close>

definition nan_depot_rows :: "int row list" where
  "nan_depot_rows =
     [\<lparr>bolge_muduru = Some ''R1'', depo_kodu = None, madde_kodu = Some ''X'', ihtiyac = 4, transfer_edilebilir = 3\<rparr>,
      \<lparr>bolge_muduru = Some ''R1'', depo_kodu = Some ''B'', madde_kodu = Some ''X'', ihtiyac = 0, transfer_edilebilir = 1\<rparr>]"

text \<open>
  Fractional cells. \<open>unit53\<close> is \<open>2 ^ - 53\<close> in units of \<open>2 ^ - 1074\<close>; the doubles nearest
  to 2.1, 0.9, 0.7 and 0.5 are 18915118434956084, 8106479329266893, 6305039478318694 and
  4503599627370496 times \<open>2 ^ - 53\<close>. In \<open>rounding_rows\<close> depot T needs 2.1 of item X and
  depots A, B and C can send 0.9, 0.7 and 0.5.
\<close>

definition unit53 :: int where
  "unit53 = 2 ^ 1021"

definition rounding_rows :: "float64 row list" where
  "rounding_rows =
     [\<lparr>bolge_muduru = Some ''R1'', depo_kodu = Some ''T'', madde_kodu = Some ''X'',
       ihtiyac = Finite (18915118434956084 * unit53), transfer_edilebilir = Finite 0\<rparr>,
      \<lparr>bolge_muduru = Some ''R1'', depo_kodu = Some ''A'', madde_kodu = Some ''X'',
       ihtiyac = Finite 0, transfer_edilebilir = Finite (8106479329266893 * unit53)\<rparr>,
      \<lparr>bolge_muduru = Some ''R1'', depo_kodu = Some ''B'', madde_kodu = Some ''X'',
       ihtiyac = Finite 0, transfer_edilebilir = Finite (6305039478318694 * unit53)\<rparr>,
      \<lparr>bolge_muduru = Some ''R1'', depo_kodu = Some ''C'', madde_kodu = Some ''X'',
       ihtiyac = Finite 0, transfer_edilebilir = Finite (4503599627370496 * unit53)\<rparr>]"

text \<open>
  Two cells holding the text \<open>inf\<close>, which \<open>pd.to_numeric\<close> reads as the double
  infinity and neither \<open>fillna(0)\<close> nor the clipping of negatives changes: depot T
  needs \<open>inf\<close>, depot S can send \<open>inf\<close>, depot U can send 1.0.
\<close>

definition infinite_rows :: "float64 row list" where
  "infinite_rows =
     [\<lparr>bolge_muduru = Some ''R1'', depo_kodu = Some ''T'', madde_kodu = Some ''X'',
       ihtiyac = PInf, transfer_edilebilir = Finite 0\<rparr>,
      \<lparr>bolge_muduru = Some ''R1'', depo_kodu = Some ''S'', madde_kodu = Some ''X'',
       ihtiyac = Finite 0, transfer_edilebilir = PInf\<rparr>,
      \<lparr>bolge_muduru = Some ''R1'', depo_kodu = Some ''U'', madde_kodu = Some ''X'',
       ihtiyac = Finite 0, transfer_edilebilir = Finite (9007199254740992 * unit53)\<rparr>]"


subsection \<open>Vocabulary of the properties\<close>

text \<open>
  The state that a call of \<open>apply_transfer\<close> leaves when it passes the guard of line 46
  and both keys are present, and the call as the inner loop makes it: the quantity is
  \<open>min\<close> of the receiver's remaining need and the sender's remaining availability.
\<close>

definition applied ::
  "'q::{zero,ord,minus} state \<Rightarrow> code \<Rightarrow> code \<Rightarrow> code \<Rightarrow> 'q \<Rightarrow> tipi \<Rightarrow> 'q state" where
  "applied st send recv item_code qty tip =
     \<lparr>need = (need st)((recv, item_code) \<mapsto> dict_get (need st) (recv, item_code) - qty),
      availability = (availability st)((send, item_code) \<mapsto> dict_get (availability st) (send, item_code) - qty),
      transfer_list = transfer_list st @
        [\<lparr>transfer_tipi = tip, gonderen_depo = send, alan_depo = recv,
          transfer_madde = item_code, transfer_miktari = qty\<rparr>]\<rparr>"

definition transfer_step :: "'q::{zero,ord,minus} state \<Rightarrow> code \<Rightarrow> code \<Rightarrow> code \<Rightarrow> tipi \<Rightarrow> 'q state" where
  "transfer_step st send recv item_code tip =
     applied st send recv item_code
       (py_min (dict_get (need st) (recv, item_code)) (dict_get (availability st) (send, item_code))) tip"

text \<open>
  \<open>preserved I site tip\<close>: every call the loops can make at a place described by \<open>site\<close>
  keeps the state predicate \<open>I\<close>. The guards of lines 82, 88 and 92 are its premises, in
  the form in which the code tests them.
\<close>

definition preserved ::
  "('q::{zero,ord,minus} state \<Rightarrow> bool) \<Rightarrow> (code \<Rightarrow> code \<Rightarrow> code \<Rightarrow> bool) \<Rightarrow> tipi \<Rightarrow> bool" where
  "preserved I site tip \<longleftrightarrow>
     (\<forall>s send recv item_code.
        I s \<longrightarrow> site send recv item_code \<longrightarrow> \<not> py_eq send recv \<longrightarrow>
        \<not> dict_get (need s) (recv, item_code) \<le> 0 \<longrightarrow>
        \<not> dict_get (availability s) (send, item_code) \<le> 0 \<longrightarrow>
        I (transfer_step s send recv item_code tip))"

text \<open>
  A depot of a candidate frame: a depot that the sorter returned for a frame over
  \<open>depots\<close>. For Stage 1 the frame is that of one region group.
\<close>

definition drawn_from :: "'q sorter \<Rightarrow> code list \<Rightarrow> code \<Rightarrow> bool" where
  "drawn_from srt depots d \<longleftrightarrow> (\<exists>xs. fst ` set xs \<subseteq> set depots \<and> d \<in> fst ` set (srt xs))"

definition stage1_site :: "'q sorter \<Rightarrow> 'q row list \<Rightarrow> code \<Rightarrow> code \<Rightarrow> code \<Rightarrow> bool" where
  "stage1_site srt df send recv item_code \<longleftrightarrow>
     (\<exists>manager grp. (manager, grp) \<in> set (groupby_bolge df) \<and>
        drawn_from srt (group_depots grp item_code) send \<and>
        drawn_from srt (group_depots grp item_code) recv)"





text \<open>
  A double that is finite and not negative. \<open>all_good g st\<close>: every value of both
  dictionaries satisfies \<open>g\<close> (a missing key reads as 0).
\<close>

fun good64 :: "float64 \<Rightarrow> bool" where
  "good64 (Finite n) = (0 \<le> n \<and> n \<le> max_units)"
| "good64 x = False"

definition all_good :: "('q::zero \<Rightarrow> bool) \<Rightarrow> 'q state \<Rightarrow> bool" where
  "all_good g st \<longleftrightarrow> (\<forall>k. g (dict_get (need st) k) \<and> g (dict_get (availability st) k))"

text \<open>
  Re-applying a ledger: \<open>apply_transfer\<close> on each recorded row in order. The loops
  change the state only through \<open>apply_transfer\<close>, and every call that passes the guard
  of line 46 appends its row, so the state after the first \<open>n\<close> applied transfers of a
  run is the replay of the first \<open>n\<close> rows of its ledger from the loaded state.
\<close>

definition replay_one :: "'q::{zero,ord,minus} transfer \<Rightarrow> 'q state \<Rightarrow> 'q error + 'q state" where
  "replay_one t st =
     apply_transfer st (gonderen_depo t) (alan_depo t) (transfer_madde t) (transfer_miktari t) (transfer_tipi t)"

definition replay :: "'q::{zero,ord,minus} state \<Rightarrow> 'q transfer list \<Rightarrow> 'q error + 'q state" where
  "replay st ts = for_each replay_one ts st"

text \<open>
  \<open>run_ok g st0 s\<close>: \<open>s\<close> is the replay of its own ledger from \<open>st0\<close>, every value of
  every state on the way satisfies \<open>g\<close>, and every recorded quantity is \<open>min\<close> of the two
  remainders at the moment of its call.
\<close>

definition run_ok :: "('q::{zero,ord,minus} \<Rightarrow> bool) \<Rightarrow> 'q state \<Rightarrow> 'q state \<Rightarrow> bool" where
  "run_ok g st0 s \<longleftrightarrow>
     replay st0 (transfer_list s) = Inr s \<and>
     (\<forall>n \<le> length (transfer_list s). \<exists>s'. replay st0 (take n (transfer_list s)) = Inr s' \<and> all_good g s' \<and>
        (n < length (transfer_list s) \<longrightarrow>
           transfer_miktari (transfer_list s ! n) =
             py_min (dict_get (need s') (alan_depo (transfer_list s ! n), transfer_madde (transfer_list s ! n)))
                    (dict_get (availability s') (gonderen_depo (transfer_list s ! n), transfer_madde (transfer_list s ! n)))))"



text \<open>
  A second sorter in descending order of the value, which puts rows of equal value in
  the reverse of their frame order.
\<close>

definition ties_reversed :: "'q::linorder sorter" where
  "ties_reversed xs = rev (sort_key snd xs)"

section \<open>Properties\<close>

subsection \<open>The recorder on present keys\<close>

lemma py_min_eq_min: "py_min a b = min a (b :: 'q::linorder)"
  by (auto simp: py_min_def min_def)

lemma py_min_cases: "py_min a b = a \<or> py_min a b = b"
  by (simp add: py_min_def)

lemma py_min_not_le:
  "\<not> a \<le> (0::'q::{zero,ord}) \<Longrightarrow> \<not> b \<le> 0 \<Longrightarrow> \<not> py_min a b \<le> 0"
  by (simp add: py_min_def)

lemma dict_get_dom:
  assumes "(0::'q::{zero,ord}) \<le> 0" and "\<not> dict_get m k \<le> (0::'q)"
  shows "k \<in> dom m"
  using assms by (auto simp: dict_get_def split: option.splits)

lemma apply_transfer_present:
  assumes "\<not> qty \<le> 0" "(send, item_code) \<in> dom (availability st)" "(recv, item_code) \<in> dom (need st)"
  shows "apply_transfer st send recv item_code qty tip = Inr (applied st send recv item_code qty tip)"
  using assms by (auto simp: apply_transfer_def applied_def dict_get_def Let_def)

lemma need_applied:
  "dict_get (need (applied st send recv item_code qty tip)) k =
     (if k = (recv, item_code) then dict_get (need st) k - qty else dict_get (need st) k)"
  by (simp add: applied_def dict_get_def)

lemma availability_applied:
  "dict_get (availability (applied st send recv item_code qty tip)) k =
     (if k = (send, item_code) then dict_get (availability st) k - qty else dict_get (availability st) k)"
  by (simp add: applied_def dict_get_def)

lemma transfer_list_applied:
  "transfer_list (applied st send recv item_code qty tip) = transfer_list st @
        [\<lparr>transfer_tipi = tip, gonderen_depo = send, alan_depo = recv,
          transfer_madde = item_code, transfer_miktari = qty\<rparr>]"
  by (simp add: applied_def)

lemma need_step:
  "dict_get (need (transfer_step st send recv item_code tip)) k =
     (if k = (recv, item_code)
      then dict_get (need st) k - py_min (dict_get (need st) (recv, item_code)) (dict_get (availability st) (send, item_code))
      else dict_get (need st) k)"
  by (simp add: transfer_step_def need_applied)

lemma availability_step:
  "dict_get (availability (transfer_step st send recv item_code tip)) k =
     (if k = (send, item_code)
      then dict_get (availability st) k - py_min (dict_get (need st) (recv, item_code)) (dict_get (availability st) (send, item_code))
      else dict_get (availability st) k)"
  by (simp add: transfer_step_def availability_applied)

lemma transfer_list_step:
  "transfer_list (transfer_step st send recv item_code tip) = transfer_list st @
     [\<lparr>transfer_tipi = tip, gonderen_depo = send, alan_depo = recv, transfer_madde = item_code,
       transfer_miktari = py_min (dict_get (need st) (recv, item_code)) (dict_get (availability st) (send, item_code))\<rparr>]"
  by (simp add: transfer_step_def transfer_list_applied)

lemma dom_need_step:
  "dom (need (transfer_step st send recv item_code tip)) = insert (recv, item_code) (dom (need st))"
  by (simp add: transfer_step_def applied_def)

lemma dom_availability_step:
  "dom (availability (transfer_step st send recv item_code tip)) = insert (send, item_code) (dom (availability st))"
  by (simp add: transfer_step_def applied_def)

subsection \<open>One iteration of the sender loop\<close>

text \<open>
  The two ways through the body of the inner loop: the iteration is skipped by one of
  the guards, or it calls \<open>apply_transfer\<close> and goes on with the receiver's counter
  reduced.
\<close>

lemma senders_loop_skip:
  "py_eq send recv \<or> dict_get (availability st) (send, item_code) \<le> 0 \<or> r_need \<le> 0 \<Longrightarrow>
   senders_loop tip recv item_code (send # senders) r_need st =
   senders_loop tip recv item_code senders r_need st"
  by (auto simp: Let_def)

lemma senders_loop_apply:
  assumes z: "(0::'q::{zero,ord,minus}) \<le> 0"
    and "\<not> py_eq send recv" "\<not> dict_get (availability st) (send, item_code) \<le> 0"
    and "r_need = dict_get (need st) (recv, item_code)" "\<not> r_need \<le> (0::'q)"
  shows "senders_loop tip recv item_code (send # senders) r_need st =
     senders_loop tip recv item_code senders
       (dict_get (need (transfer_step st send recv item_code tip)) (recv, item_code))
       (transfer_step st send recv item_code tip)"
proof -
  let ?q = "py_min r_need (dict_get (availability st) (send, item_code))"
  have st: "transfer_step st send recv item_code tip = applied st send recv item_code ?q tip"
    by (simp add: transfer_step_def assms(4))
  have pos: "\<not> ?q \<le> 0" using assms(3,5) by (rule py_min_not_le [rotated])
  have ap: "apply_transfer st send recv item_code ?q tip = Inr (applied st send recv item_code ?q tip)"
  proof (rule apply_transfer_present [OF pos])
    show "(send, item_code) \<in> dom (availability st)" by (rule dict_get_dom [OF z assms(3)])
    show "(recv, item_code) \<in> dom (need st)" using assms(4,5) by (intro dict_get_dom [OF z]) simp
  qed
  have tr: "dict_get (need (applied st send recv item_code ?q tip)) (recv, item_code) = r_need - ?q"
    using assms(4) by (simp add: need_applied)
  have "senders_loop tip recv item_code (send # senders) r_need st =
     (case apply_transfer st send recv item_code ?q tip of Inl e \<Rightarrow> Inl e
      | Inr st' \<Rightarrow> senders_loop tip recv item_code senders (r_need - ?q) st')"
    using assms(2,3,5) by (simp add: Let_def)
  then show ?thesis by (simp only: ap tr st sum.case)
qed

declare senders_loop.simps(2) [simp del]

subsection \<open>Invariants of the loops\<close>

text \<open>
  A state predicate that every possible call keeps holds when the run ends, and the run
  ends without an exception. The rule needs of the quantity type only that
  \<open>0 \<le> 0\<close>, which holds for whole numbers and for doubles.
\<close>

lemma preserved_weaken:
  "preserved I site tip \<Longrightarrow> (\<And>s r i. site' s r i \<Longrightarrow> site s r i) \<Longrightarrow> preserved I site' tip"
  unfolding preserved_def by blast

lemma senders_loop_preserved:
  assumes z: "(0::'q::{zero,ord,minus}) \<le> 0"
    and "I st" and "r_need = dict_get (need st) (recv, item_code)"
    and "preserved I (\<lambda>s r i. s \<in> set senders \<and> r = recv \<and> i = item_code) tip"
  shows "\<exists>st' :: 'q state. senders_loop tip recv item_code senders r_need st = Inr st' \<and> I st'"
  using assms(2-)
proof (induction senders arbitrary: st r_need)
  case Nil
  then show ?case by simp
next
  case (Cons send senders)
  have p': "preserved I (\<lambda>s r i. s \<in> set senders \<and> r = recv \<and> i = item_code) tip"
    by (rule preserved_weaken [OF Cons.prems(3)]) simp
  show ?case
  proof (cases "py_eq send recv \<or> dict_get (availability st) (send, item_code) \<le> 0 \<or> r_need \<le> 0")
    case True
    show ?thesis
      unfolding senders_loop_skip [OF True]
      by (rule Cons.IH [OF Cons.prems(1) Cons.prems(2) p'])
  next
    case False
    then have f: "\<not> py_eq send recv" "\<not> dict_get (availability st) (send, item_code) \<le> 0" "\<not> r_need \<le> 0"
      by simp_all
    have I': "I (transfer_step st send recv item_code tip)"
      using Cons.prems(3) Cons.prems(1,2) f unfolding preserved_def by simp
    show ?thesis
      unfolding senders_loop_apply [OF z f(1,2) Cons.prems(2) f(3)]
      by (rule Cons.IH [OF I' refl p'])
  qed
qed

lemma receivers_loop_preserved:
  assumes z: "(0::'q::{zero,ord,minus}) \<le> 0"
    and "I st"
    and "preserved I (\<lambda>s r i. s \<in> set senders \<and> r \<in> set receivers \<and> i = item_code) tip"
  shows "\<exists>st' :: 'q state. receivers_loop tip item_code senders receivers st = Inr st' \<and> I st'"
  using assms(2-)
proof (induction receivers arbitrary: st)
  case Nil
  then show ?case by simp
next
  case (Cons recv receivers)
  have p': "preserved I (\<lambda>s r i. s \<in> set senders \<and> r \<in> set receivers \<and> i = item_code) tip"
    by (rule preserved_weaken [OF Cons.prems(2)]) simp
  show ?case
  proof (cases "dict_get (need st) (recv, item_code) \<le> 0")
    case True
    then show ?thesis
      using Cons.IH [OF Cons.prems(1) p'] by (simp add: Let_def)
  next
    case False
    have "preserved I (\<lambda>s r i. s \<in> set senders \<and> r = recv \<and> i = item_code) tip"
      by (rule preserved_weaken [OF Cons.prems(2)]) simp
    from senders_loop_preserved [OF z Cons.prems(1) refl this]
    obtain st' where s: "senders_loop tip recv item_code senders (dict_get (need st) (recv, item_code)) st = Inr st'"
      and I': "I st'" by blast
    from Cons.IH [OF I' p'] False s show ?thesis
      by (simp add: Let_def)
  qed
qed

lemma candidates_drawn:
  "d \<in> fst ` set (candidates srt m depots item_code) \<Longrightarrow> drawn_from srt depots d"
  unfolding candidates_def drawn_from_def
  by (rule exI [of _ "filter (\<lambda>(depot, v). 0 < v) (map (\<lambda>depot. (depot, dict_get m (depot, item_code))) depots)"])
     auto

lemma match_item_preserved:
  assumes z: "(0::'q::{zero,ord,minus}) \<le> 0"
    and "I st"
    and "preserved I (\<lambda>s r i. drawn_from srt depots s \<and> drawn_from srt depots r \<and> i = item_code) tip"
  shows "\<exists>st' :: 'q state. match_item tip srt depots item_code st = Inr st' \<and> I st'"
proof -
  let ?rs = "candidates srt (need st) depots item_code"
  let ?ss = "candidates srt (availability st) depots item_code"
  have "preserved I (\<lambda>s r i. s \<in> set (map fst ?ss) \<and> r \<in> set (map fst ?rs) \<and> i = item_code) tip"
    by (rule preserved_weaken [OF assms(3)]) (auto intro: candidates_drawn)
  from receivers_loop_preserved [OF z assms(2) this] assms(2)
  show ?thesis
    by (simp add: match_item_def Let_def)
qed

lemma for_each_inv:
  assumes "I st" and "\<And>x s. x \<in> set xs \<Longrightarrow> I s \<Longrightarrow> \<exists>s'. body x s = Inr s' \<and> I s'"
  shows "\<exists>st'. for_each body xs st = Inr st' \<and> I st'"
  using assms
proof (induction xs arbitrary: st)
  case Nil
  then show ?case by simp
next
  case (Cons x xs)
  from Cons.prems(2) [of x st] Cons.prems(1)
  obtain s' where b: "body x st = Inr s'" and I': "I s'" by auto
  have "\<exists>st'. for_each body xs s' = Inr st' \<and> I st'"
    by (rule Cons.IH [OF I']) (simp add: Cons.prems(2))
  with b show ?case by simp
qed

lemma stage1_preserved:
  assumes z: "(0::'q::{zero,ord,minus}) \<le> 0"
    and "I st" and "preserved I (stage1_site srt df) Bolge_ici"
  shows "\<exists>st' :: 'q state. stage1 srt df st = Inr st' \<and> I st'"
  unfolding stage1_def
proof (rule for_each_inv [of I, OF assms(2)])
  fix x :: "string \<times> 'q row list" and s
  assume x: "x \<in> set (groupby_bolge df)" and s: "I s"
  obtain manager grp where xeq: "x = (manager, grp)" by (cases x)
  have "\<exists>s'. for_each (\<lambda>item_code. match_item Bolge_ici srt (group_depots grp item_code) item_code)
                 (unique (map madde_kodu grp)) s = Inr s' \<and> I s'"
  proof (rule for_each_inv [of I, OF s])
    fix item_code s1
    assume "I s1"
    moreover have "preserved I (\<lambda>s r i. drawn_from srt (group_depots grp item_code) s \<and>
           drawn_from srt (group_depots grp item_code) r \<and> i = item_code) Bolge_ici"
      by (rule preserved_weaken [OF assms(3)]) (use x xeq in \<open>auto simp: stage1_site_def\<close>)
    ultimately show "\<exists>s'. match_item Bolge_ici srt (group_depots grp item_code) item_code s1 = Inr s' \<and> I s'"
      by (rule match_item_preserved [OF z])
  qed
  then show "\<exists>s'. (case x of (manager, grp) \<Rightarrow>
            for_each (\<lambda>item_code. match_item Bolge_ici srt (group_depots grp item_code) item_code)
                 (unique (map madde_kodu grp))) s = Inr s' \<and> I s'"
    by (simp add: xeq)
qed

lemma stage2_preserved:
  assumes z: "(0::'q::{zero,ord,minus}) \<le> 0"
    and "I st" and "preserved I (\<lambda>s r i. True) Bolge_disi"
  shows "\<exists>st' :: 'q state. stage2 srt df st = Inr st' \<and> I st'"
  unfolding stage2_def Let_def
proof (rule for_each_inv [of I, OF assms(2)])
  fix item_code s
  assume "I s"
  moreover have "preserved I (\<lambda>s r i. drawn_from srt (unique (map depo_kodu df)) s \<and>
           drawn_from srt (unique (map depo_kodu df)) r \<and> i = item_code) Bolge_disi"
    by (rule preserved_weaken [OF assms(3)]) simp
  ultimately show "\<exists>s'. match_item Bolge_disi srt (unique (map depo_kodu df)) item_code s = Inr s' \<and> I s'"
    by (rule match_item_preserved [OF z])
qed

lemma generate_transfer_list_preserved:
  assumes z: "(0::'q::{zero,ord,minus}) \<le> 0"
    and "I (initial_state (map clean_row data))"
    and "preserved I (stage1_site srt (map clean_row data)) Bolge_ici"
    and "preserved I (\<lambda>s r i. True) Bolge_disi"
  shows "\<exists>st :: 'q state. generate_transfer_list srt data = Inr st \<and> I st"
proof -
  from stage1_preserved [OF z assms(2,3)]
  obtain st1 where s1: "stage1 srt (map clean_row data) (initial_state (map clean_row data)) = Inr st1"
    and I1: "I st1" by blast
  from stage2_preserved [OF z I1 assms(4)] s1 show ?thesis
    by (simp add: generate_transfer_list_def Let_def)
qed




lemma stage1_preserved_lin:
  assumes "I st" and "preserved I (stage1_site srt df) Bolge_ici"
  shows "\<exists>st' :: 'q::linordered_idom state. stage1 srt df st = Inr st' \<and> I st'"
  by (rule stage1_preserved [OF order_refl assms])

lemma stage2_preserved_lin:
  assumes "I st" and "preserved I (\<lambda>s r i. True) Bolge_disi"
  shows "\<exists>st' :: 'q::linordered_idom state. stage2 srt df st = Inr st' \<and> I st'"
  by (rule stage2_preserved [OF order_refl assms])

lemma generate_transfer_list_preserved_lin:
  assumes "I (initial_state (map clean_row data))"
    and "preserved I (stage1_site srt (map clean_row data)) Bolge_ici"
    and "preserved I (\<lambda>s r i. True) Bolge_disi"
  shows "\<exists>st :: 'q::linordered_idom state. generate_transfer_list srt data = Inr st \<and> I st"
  by (rule generate_transfer_list_preserved [OF order_refl assms])

lemma senders_loop_apply_lin:
  assumes "send \<noteq> recv" "0 < dict_get (availability st) (send, item_code)"
    and "r_need = dict_get (need st) (recv, item_code)" "0 < (r_need :: 'q::linordered_idom)"
  shows "senders_loop tip recv item_code (send # senders) r_need st =
     senders_loop tip recv item_code senders
       (dict_get (need (transfer_step st send recv item_code tip)) (recv, item_code))
       (transfer_step st send recv item_code tip)"
  using assms by (intro senders_loop_apply) (simp_all add: py_eq_def)

subsection \<open>The loaded dictionaries\<close>

lemma to_dict_map_of: "to_dict kvs = map_of (rev kvs)"
proof -
  have "fold (\<lambda>(k, v) m. m(k \<mapsto> v)) kvs m = m ++ map_of (rev kvs)" for m :: "'a \<rightharpoonup> 'b"
    by (induction kvs arbitrary: m) (auto simp: map_add_upd_left fun_eq_iff map_add_def split: option.splits)
  then show ?thesis by (simp add: to_dict_def)
qed

lemma to_dict_SomeD: "to_dict kvs k = Some v \<Longrightarrow> (k, v) \<in> set kvs"
  by (auto simp: to_dict_map_of dest: map_of_SomeD)


lemma initial_need_SomeD:
  "need (initial_state (map clean_row data)) k = Some v \<Longrightarrow>
   \<exists>r \<in> set data. k = (depo_kodu r, madde_kodu r) \<and> v = clip_negative (ihtiyac r)"
  by (auto simp: initial_state_def row_key_def clean_row_def dest!: to_dict_SomeD)

lemma initial_availability_SomeD:
  "availability (initial_state (map clean_row data)) k = Some v \<Longrightarrow>
   \<exists>r \<in> set data. k = (depo_kodu r, madde_kodu r) \<and> v = clip_negative (transfer_edilebilir r)"
  by (auto simp: initial_state_def row_key_def clean_row_def dest!: to_dict_SomeD)



lemma set_unique [simp]: "set (unique xs) = set xs"
  by (induction xs) auto

lemma groupby_bolge_D:
  "(manager, grp) \<in> set (groupby_bolge df) \<Longrightarrow> grp = filter (\<lambda>r. bolge_muduru r = Some manager) df"
  by (auto simp: groupby_bolge_def)

lemma group_depots_D:
  "d \<in> set (group_depots grp item_code) \<Longrightarrow> \<exists>r \<in> set grp. depo_kodu r = d \<and> madde_kodu r = item_code"
  by (auto simp: group_depots_def py_eq_def)

lemma drawn_from_D:
  assumes "\<And>xs. set (srt xs) \<subseteq> set xs" and "drawn_from srt depots d"
  shows "d \<in> set depots"
  using assms unfolding drawn_from_def by blast

lemma stage1_site_D:
  assumes "\<And>xs. set (srt xs) \<subseteq> set xs"
    and "stage1_site srt (map clean_row data) send recv item_code"
  shows "\<exists>manager. \<exists>r1 \<in> set data. \<exists>r2 \<in> set data.
           bolge_muduru r1 = Some manager \<and> bolge_muduru r2 = Some manager \<and>
           depo_kodu r1 = send \<and> depo_kodu r2 = recv \<and>
           madde_kodu r1 = item_code \<and> madde_kodu r2 = item_code"
proof -
  from assms(2) obtain manager grp where g: "(manager, grp) \<in> set (groupby_bolge (map clean_row data))"
    and s: "drawn_from srt (group_depots grp item_code) send"
    and r: "drawn_from srt (group_depots grp item_code) recv"
    unfolding stage1_site_def by blast
  have grp: "grp = filter (\<lambda>r. bolge_muduru r = Some manager) (map clean_row data)"
    by (rule groupby_bolge_D [OF g])
  from drawn_from_D [OF assms(1) s] obtain c1 where c1: "c1 \<in> set grp" "depo_kodu c1 = send" "madde_kodu c1 = item_code"
    by (blast dest: group_depots_D)
  from drawn_from_D [OF assms(1) r] obtain c2 where c2: "c2 \<in> set grp" "depo_kodu c2 = recv" "madde_kodu c2 = item_code"
    by (blast dest: group_depots_D)
  from c1 grp obtain r1 where r1: "r1 \<in> set data" "c1 = clean_row r1" "bolge_muduru c1 = Some manager" by auto
  from c2 grp obtain r2 where r2: "r2 \<in> set data" "c2 = clean_row r2" "bolge_muduru c2 = Some manager" by auto
  have "bolge_muduru r1 = Some manager \<and> bolge_muduru r2 = Some manager \<and>
           depo_kodu r1 = send \<and> depo_kodu r2 = recv \<and>
           madde_kodu r1 = item_code \<and> madde_kodu r2 = item_code"
    using c1 c2 r1 r2 by (simp add: clean_row_def)
  with r1(1) r2(1) show ?thesis by blast
qed

lemma dict_get_pos_dom: "0 < dict_get m k \<Longrightarrow> k \<in> dom (m :: 'k \<rightharpoonup> 'q::linordered_idom)"
  by (auto simp: dict_get_def split: option.splits)


subsection \<open>The concrete sorter\<close>

lemma set_insert_desc: "set (insert_desc x ys) = insert x (set ys)"
  by (induction ys) auto

lemma set_sort_values_desc: "set (sort_values_desc xs) = set xs"
  by (induction xs) (simp_all add: sort_values_desc_def set_insert_desc)

lemmas engine_defs = generate_transfer_list_def stage1_def stage2_def clean_row_def clip_negative_def
     initial_state_def to_dict_def row_key_def groupby_bolge_def List.map_filter_def group_depots_def match_item_def candidates_def
     dict_get_def sort_values_desc_def apply_transfer_def Let_def senders_loop.simps(2) py_eq_def py_min_def

lemma filter_insert_desc:
  "filter (\<lambda>p. snd p = v) (insert_desc x ys) =
     (if snd x = v then x # filter (\<lambda>p. snd p = v) ys else filter (\<lambda>p. snd p = (v :: 'q::linorder)) ys)"
  by (induction ys) auto

lemma sort_values_desc_stable:
  "filter (\<lambda>p. snd p = v) (sort_values_desc xs) = filter (\<lambda>p. snd p = (v :: 'q::linorder)) xs"
  by (induction xs) (simp_all add: sort_values_desc_def filter_insert_desc)

subsection \<open>Rounding of doubles\<close>

text \<open>
  A difference of two doubles that are finite and not negative, the first the larger,
  is again finite and not negative after rounding: rounding to nearest is monotone and
  0 is a double.
\<close>

lemma float64_zero_le_zero: "(0::float64) \<le> 0"
  by (simp add: zero_float64_def less_eq_float64_def)

lemma bitlen_eqI:
  assumes "2 ^ n \<le> x" "x < 2 ^ Suc n"
  shows "bitlen x = int (Suc n)"
proof -
  have pos: "0 < x" using assms(1) by (smt (verit) zero_less_power)
  from bitlen_bounds [OF pos] have b: "2 ^ nat (bitlen x - 1) \<le> x" "x < 2 ^ nat (bitlen x)" by simp_all
  have "(2::int) ^ n < 2 ^ nat (bitlen x)" using assms(1) b(2) by linarith
  then have 1: "n < nat (bitlen x)" by simp
  have "(2::int) ^ nat (bitlen x - 1) < 2 ^ Suc n" using assms(2) b(1) by linarith
  then have 2: "nat (bitlen x - 1) < Suc n" by (simp del: power_Suc)
  from 1 2 show ?thesis by linarith
qed

lemma round_half_even_scale:
  assumes "0 < k"
  shows "round_half_even (m * 2 ^ e) (k + e) = round_half_even m k"
proof -
  have p: "(2::int) ^ (k + e) = 2 ^ k * 2 ^ e" by (simp add: power_add)
  have h: "(2::int) ^ (k + e - 1) = 2 ^ (k - 1) * 2 ^ e"
    using assms by (simp add: power_add [symmetric])
  have d: "m * 2 ^ e div 2 ^ (k + e) = m div 2 ^ k"
    unfolding p by simp
  have r: "m * 2 ^ e mod 2 ^ (k + e) = (m mod 2 ^ k) * 2 ^ e"
    unfolding p by simp
  show ?thesis
    unfolding round_half_even_def Let_def d r h by simp
qed

lemma round_half_even_lower: "0 \<le> a \<Longrightarrow> 0 \<le> round_half_even a k"
  by (simp add: round_half_even_def Let_def pos_imp_zdiv_nonneg_iff)

lemma round_half_even_upper:
  assumes "0 \<le> a" "a \<le> N * 2 ^ k"
  shows "round_half_even a k \<le> N"
proof -
  let ?q = "a div 2 ^ k" and ?r = "a mod 2 ^ k"
  have q: "?q \<le> N"
  proof -
    have "?q \<le> (N * 2 ^ k) div 2 ^ k" by (rule zdiv_mono1 [OF assms(2)]) simp
    then show ?thesis by simp
  qed
  show ?thesis
  proof (cases "round_half_even a k = ?q")
    case True
    with q show ?thesis by simp
  next
    case False
    then have eq: "round_half_even a k = ?q + 1" and nr: "\<not> ?r < 2 ^ (k - 1)"
      by (auto simp: round_half_even_def Let_def split: if_splits)
    have "0 < ?r" using nr by (smt (verit) zero_less_power)
    moreover have "?q * 2 ^ k + ?r = a" by (rule div_mult_mod_eq)
    ultimately have "?q * 2 ^ k < N * 2 ^ k" using assms(2) by linarith
    then have "?q < N" by simp
    with eq show ?thesis by simp
  qed
qed

lemma max_units_less: "max_units < overflow_units"
proof -
  have "(2::int) ^ 2098 = 2 ^ (53 + 2045)" by simp
  then have "(2::int) ^ 2098 = 2 ^ 53 * 2 ^ 2045" by (simp only: power_add)
  moreover have "(2 ^ 53 - 1) * (2::int) ^ 2045 < 2 ^ 53 * 2 ^ 2045"
    by (rule mult_strict_right_mono) simp_all
  ultimately show ?thesis by (simp only: max_units_def overflow_units_def)
qed

lemma pow_2097_le_max_units: "2 ^ 2097 \<le> max_units"
proof -
  have "(2::int) ^ 2097 = 2 ^ (52 + 2045)" by simp
  then have "(2::int) ^ 2097 = 2 ^ 52 * 2 ^ 2045" by (simp only: power_add)
  moreover have "2 ^ 52 * (2::int) ^ 2045 \<le> (2 ^ 53 - 1) * 2 ^ 2045"
    by (rule mult_right_mono) simp_all
  ultimately show ?thesis by (simp only: max_units_def)
qed

lemma round_units_good:
  assumes "0 \<le> d" "d \<le> max_units"
  shows "good64 (round_units d)"
proof (cases "bitlen \<bar>d\<bar> - 53 \<le> 0")
  case True
  then show ?thesis using assms by (simp add: round_units_def Let_def)
next
  case False
  define k where "k = nat (bitlen d - 53)"
  from False assms(1) have kpos: "0 < k" and bl: "bitlen d = 53 + int k"
    by (simp_all add: k_def)
  have dpos: "0 < d" using bl kpos bitlen_eq_zero_iff [of d] assms(1) by (cases "d = 0") auto
  from bitlen_bounds [OF dpos] have lo: "2 ^ nat (bitlen d - 1) \<le> d" and hi: "d < 2 ^ nat (bitlen d)"
    by simp_all
  have hi': "d < 2 ^ 53 * 2 ^ k"
    using hi by (simp add: bl nat_add_distrib power_add)
  have "2 ^ nat (bitlen d - 1) \<le> max_units" using lo assms(2) by (rule order_trans)
  also have "max_units < 2 ^ 2098" using max_units_less by (simp only: overflow_units_def)
  finally have "(2::int) ^ nat (bitlen d - 1) < 2 ^ 2098" .
  then have "nat (bitlen d - 1) < 2098" by (rule power_less_imp_less_exp [rotated]) simp
  then have kle: "k \<le> 2045" using bl by simp
  let ?m = "round_half_even d k"
  have m0: "0 \<le> ?m" by (rule round_half_even_lower [OF assms(1)])
  have up: "?m * 2 ^ k \<le> max_units"
  proof (cases "k = 2045")
    case True
    have "?m \<le> 2 ^ 53 - 1"
      by (rule round_half_even_upper [OF assms(1)]) (use assms(2) True in \<open>simp only: max_units_def\<close>)
    then have "?m * 2 ^ k \<le> (2 ^ 53 - 1) * 2 ^ k" by (rule mult_right_mono) simp
    then show ?thesis by (simp only: max_units_def True)
  next
    case False
    with kle have k4: "k \<le> 2044" by simp
    have "?m \<le> 2 ^ 53"
      by (rule round_half_even_upper [OF assms(1)]) (use hi' in simp)
    then have "?m * 2 ^ k \<le> 2 ^ 53 * 2 ^ k" by (rule mult_right_mono) simp
    also have "\<dots> = 2 ^ (53 + k)" by (simp only: power_add)
    also have "\<dots> \<le> (2::int) ^ 2097" by (rule power_increasing) (use k4 in simp_all)
    also note pow_2097_le_max_units
    finally show ?thesis .
  qed
  have lt: "\<not> overflow_units \<le> ?m * 2 ^ k" using up max_units_less by linarith
  have "round_units d = Finite (?m * 2 ^ k)"
    using False dpos lt by (simp add: round_units_def Let_def k_def)
  moreover have "0 \<le> ?m * 2 ^ k" using m0 by simp
  ultimately show ?thesis using up by simp
qed

lemma round_units_scale:
  assumes "0 < m" "bitlen m = 53 + int k" "0 < k" "round_half_even m k * 2 ^ (k + e) < overflow_units"
  shows "round_units (m * 2 ^ e) = Finite (round_half_even m k * 2 ^ (k + e))"
proof -
  have pos: "0 < m * (2::int) ^ e" using assms(1) by simp
  have ab: "\<bar>m * 2 ^ e\<bar> = m * 2 ^ e" using pos by simp
  have b: "bitlen (m * 2 ^ e) = 53 + int (k + e)"
    using assms(1,2) by (simp add: bitlen_pow2)
  have nk: "nat (bitlen (m * 2 ^ e) - 53) = k + e" and nz: "\<not> bitlen (m * 2 ^ e) - 53 \<le> 0"
    unfolding b using assms(3) by simp_all
  have rh: "round_half_even (m * 2 ^ e) (k + e) = round_half_even m k"
    by (rule round_half_even_scale [OF assms(3)])
  have ov: "\<not> overflow_units \<le> round_half_even m k * 2 ^ (k + e)"
    using assms(4) by simp
  have sg: "sgn (m * (2::int) ^ e) = 1" using pos by simp
  show ?thesis
    unfolding round_units_def Let_def ab nk rh sg
    using nz ov by (simp only: if_False mult_1)
qed

lemma round_units_repr:
  assumes "0 < m" "bitlen m \<le> 53" "m * 2 ^ e \<le> max_units"
  shows "round_units (m * 2 ^ e) = Finite (m * 2 ^ e)"
proof (cases "bitlen \<bar>m * 2 ^ e\<bar> - 53 \<le> 0")
  case True
  then show ?thesis by (simp add: round_units_def Let_def)
next
  case False
  have pos: "0 < m * (2::int) ^ e" using assms(1) by simp
  define k where "k = nat (bitlen m + int e - 53)"
  have b: "bitlen \<bar>m * 2 ^ e\<bar> = bitlen m + int e"
    using pos assms(1) by (simp add: bitlen_pow2)
  from False b have kpos: "0 < k" and ke: "k \<le> e"
    using assms(2) by (simp_all add: k_def)
  have split: "(2::int) ^ e = 2 ^ (e - k) * 2 ^ k"
    using ke by (simp add: power_add [symmetric])
  have dv: "m * 2 ^ e div 2 ^ k = m * 2 ^ (e - k)" and md: "m * 2 ^ e mod 2 ^ k = 0"
    unfolding split by simp_all
  have "round_half_even (m * 2 ^ e) k = m * 2 ^ (e - k)"
    unfolding round_half_even_def Let_def dv md by simp
  then have r: "round_half_even (m * 2 ^ e) k * 2 ^ k = m * 2 ^ e"
    using split by simp
  have "\<not> overflow_units \<le> m * (2::int) ^ e" using assms(3) max_units_less by linarith
  then show ?thesis
    using False b pos r by (simp add: round_units_def Let_def k_def)
qed

lemma good64_step:
  assumes "good64 a" "good64 b" "\<not> a \<le> 0" "\<not> b \<le> 0"
  shows "good64 (a - py_min a b) \<and> good64 (b - py_min a b)"
proof -
  from assms(1) obtain x where a: "a = Finite x" and x: "0 \<le> x" "x \<le> max_units" by (cases a) auto
  from assms(2) obtain y where b: "b = Finite y" and y: "0 \<le> y" "y \<le> max_units" by (cases b) auto
  have z: "good64 (round_units 0)" by (rule round_units_good) (simp_all add: max_units_def)
  show ?thesis
  proof (cases "y < x")
    case True
    then have "good64 (round_units (x - y))" using x y by (intro round_units_good) simp_all
    with True z show ?thesis
      by (simp add: a b py_min_def less_float64_def minus_float64_def)
  next
    case False
    then have "good64 (round_units (y - x))" using x y by (intro round_units_good) simp_all
    with False z show ?thesis
      by (simp add: a b py_min_def less_float64_def minus_float64_def)
  qed
qed

lemma good64_clip: "finite64 x \<Longrightarrow> good64 (clip_negative x)"
  by (cases x) (auto simp: clip_negative_def less_float64_def zero_float64_def max_units_def)

lemma good64_nonneg: "good64 x \<Longrightarrow> 0 \<le> x \<and> finite64 x"
  by (cases x) (auto simp: less_eq_float64_def zero_float64_def)

lemma good64_zero: "good64 0"
  by (simp add: zero_float64_def max_units_def)

text \<open>
  Evaluation of the subtractions of the fractional table.
\<close>

lemma unit53_pos [simp]: "0 < unit53"
  by (simp add: unit53_def)

lemma round_units_zero [simp]: "round_units 0 = Finite 0"
  by (simp add: round_units_def)

lemma unit53_nonzero [simp]: "unit53 \<noteq> 0"
  by (metis unit53_pos order_less_irrefl)

lemma unit53_not_neg [simp]: "\<not> unit53 < 0"
  by (metis unit53_pos order_less_asym)

lemma unit53_nonneg [simp]: "0 \<le> unit53"
  by (metis unit53_pos order_less_imp_le)

lemma unit53_not_le [simp]: "\<not> unit53 \<le> 0"
  by (metis unit53_pos not_le)

lemma max_units_nonneg: "0 \<le> max_units"
  using pow_2097_le_max_units by (rule order_trans [rotated]) simp

lemma unit53_le_max_units:
  assumes "0 \<le> m" "m \<le> 2 ^ 60"
  shows "m * unit53 \<le> max_units"
proof -
  have "m * unit53 \<le> 2 ^ 60 * unit53" using assms(2) by (rule mult_right_mono) simp
  also have "\<dots> = 2 ^ (60 + 1021)" unfolding unit53_def by (simp only: power_add)
  also have "\<dots> \<le> (2::int) ^ 2097" by (rule power_increasing) simp_all
  also note pow_2097_le_max_units
  finally show ?thesis .
qed

lemma unit53_bound:
  assumes "0 \<le> m" "m \<le> 2 ^ 53"
  shows "m * unit53 \<le> max_units"
proof -
  have "m * unit53 \<le> 2 ^ 53 * unit53" using assms(2) by (rule mult_right_mono) (simp add: unit53_def)
  also have "\<dots> = 2 ^ (53 + 1021)" unfolding unit53_def by (simp only: power_add)
  also have "\<dots> \<le> (2::int) ^ 2097" by (rule power_increasing) simp_all
  also note pow_2097_le_max_units
  finally show ?thesis .
qed

lemma round_units_unit53:
  assumes "0 < m" "bitlen m \<le> 953"
  shows "round_units (m * unit53) =
     (if bitlen m \<le> 53 then Finite (m * unit53)
      else Finite (round_half_even m (nat (bitlen m - 53)) * 2 ^ nat (bitlen m - 53) * unit53))"
proof (cases "bitlen m \<le> 53")
  case True
  have "m < 2 ^ nat (bitlen m)" using bitlen_bounds [OF assms(1)] by simp
  also have "\<dots> \<le> (2::int) ^ 53" by (rule power_increasing) (use True in simp_all)
  finally have "m * unit53 \<le> max_units" using assms(1) by (intro unit53_bound) simp_all
  then have "round_units (m * 2 ^ 1021) = Finite (m * 2 ^ 1021)"
    unfolding unit53_def by (rule round_units_repr [OF assms(1) True])
  with True show ?thesis by (simp add: unit53_def)
next
  case False
  define k where "k = nat (bitlen m - 53)"
  from False assms(2) have b: "bitlen m = 53 + int k" and kpos: "0 < k" and k9: "k \<le> 900"
    by (simp_all add: k_def)
  have "m < 2 ^ nat (bitlen m)" using bitlen_bounds [OF assms(1)] by simp
  then have m: "m \<le> 2 ^ 53 * 2 ^ k" by (simp add: b nat_add_distrib power_add)
  have r: "round_half_even m k \<le> 2 ^ 53"
    by (rule round_half_even_upper [OF _ m]) (use assms(1) in simp)
  have "round_half_even m k * 2 ^ (k + 1021) \<le> 2 ^ 53 * 2 ^ (k + 1021)"
    using r by (rule mult_right_mono) simp
  also have "\<dots> = (2::int) ^ (53 + (k + 1021))" by (simp only: power_add)
  also have "\<dots> \<le> (2::int) ^ 2097" by (rule power_increasing) (use k9 in simp_all)
  also note pow_2097_le_max_units
  also note max_units_less
  finally have "round_units (m * 2 ^ 1021) = Finite (round_half_even m k * 2 ^ (k + 1021))"
    by (intro round_units_scale [OF assms(1) b kpos])
  moreover have "(2::int) ^ (k + 1021) = 2 ^ k * 2 ^ 1021" by (simp only: power_add)
  ultimately show ?thesis using False by (simp add: unit53_def mult.assoc k_def)
qed

lemmas float_defs = minus_float64_def less_float64_def less_eq_float64_def zero_float64_def
  round_units_unit53 compute_bitlen round_half_even_def

lemma sub_1: "Finite (18915118434956084 * unit53) - Finite (8106479329266893 * unit53) = Finite (10808639105689192 * unit53)"
  by (simp add: float_defs)

lemma sub_2: "Finite (10808639105689192 * unit53) - Finite (6305039478318694 * unit53) = Finite (4503599627370498 * unit53)"
  by (simp add: float_defs)

lemma sub_3: "Finite (4503599627370498 * unit53) - Finite (4503599627370496 * unit53) = Finite (2 * unit53)"
  by (simp add: float_defs)


subsection \<open>Conservation\<close>








subsection \<open>Non-negativity\<close>

lemma for_each_append:
  "for_each body (xs @ ys) st =
     (case for_each body xs st of Inl e \<Rightarrow> Inl e | Inr s \<Rightarrow> for_each body ys s)"
  by (induction xs arbitrary: st) (auto split: sum.splits)

lemma replay_snoc:
  "replay st ts = Inr s \<Longrightarrow> replay st (ts @ [t]) = replay_one t s"
  by (simp add: replay_def for_each_append split: sum.splits)

lemma replay_one_step:
  assumes z: "(0::'q::{zero,ord,minus}) \<le> 0"
    and "\<not> dict_get (need s) (recv, item_code) \<le> (0::'q)" "\<not> dict_get (availability s) (send, item_code) \<le> 0"
  shows "replay_one \<lparr>transfer_tipi = tip, gonderen_depo = send, alan_depo = recv, transfer_madde = item_code,
       transfer_miktari = py_min (dict_get (need s) (recv, item_code)) (dict_get (availability s) (send, item_code))\<rparr> s
     = Inr (transfer_step s send recv item_code tip)"
proof -
  have "\<not> py_min (dict_get (need s) (recv, item_code)) (dict_get (availability s) (send, item_code)) \<le> 0"
    using assms(2,3) by (rule py_min_not_le)
  then show ?thesis
    unfolding replay_one_def transfer_step_def
    by (simp add: apply_transfer_present dict_get_dom [OF z assms(2)] dict_get_dom [OF z assms(3)])
qed

lemma all_good_step:
  assumes step: "\<And>a b. g a \<Longrightarrow> g b \<Longrightarrow> \<not> a \<le> 0 \<Longrightarrow> \<not> b \<le> 0 \<Longrightarrow> g (a - py_min a b) \<and> g (b - py_min a b)"
    and "all_good g s"
    and "\<not> dict_get (need s) (recv, item_code) \<le> 0" "\<not> dict_get (availability s) (send, item_code) \<le> 0"
  shows "all_good g (transfer_step s send recv item_code tip)"
proof -
  from assms(2) have g: "g (dict_get (need s) k)" "g (dict_get (availability s) k)" for k
    unfolding all_good_def by blast+
  from step [OF g(1) g(2) assms(3,4)]
  have "g (dict_get (need (transfer_step s send recv item_code tip)) k) \<and>
        g (dict_get (availability (transfer_step s send recv item_code tip)) k)" for k
    using g [of k] by (auto simp: need_step availability_step)
  then show ?thesis
    unfolding all_good_def by blast
qed

lemma run_ok_good: "run_ok g st0 s \<Longrightarrow> all_good g s"
  unfolding run_ok_def by (auto dest!: spec [of _ "length (transfer_list s)"])

lemma run_ok_step:
  assumes z: "(0::'q::{zero,ord,minus}) \<le> 0"
    and step: "\<And>a b :: 'q. g a \<Longrightarrow> g b \<Longrightarrow> \<not> a \<le> 0 \<Longrightarrow> \<not> b \<le> 0 \<Longrightarrow> g (a - py_min a b) \<and> g (b - py_min a b)"
    and ok: "run_ok g st0 s"
    and pos: "\<not> dict_get (need s) (recv, item_code) \<le> 0" "\<not> dict_get (availability s) (send, item_code) \<le> 0"
  shows "run_ok g st0 (transfer_step s send recv item_code tip)"
proof -
  let ?t = "\<lparr>transfer_tipi = tip, gonderen_depo = send, alan_depo = recv, transfer_madde = item_code,
       transfer_miktari = py_min (dict_get (need s) (recv, item_code)) (dict_get (availability s) (send, item_code))\<rparr>"
  let ?s = "transfer_step s send recv item_code tip"
  have tl: "transfer_list ?s = transfer_list s @ [?t]" by (rule transfer_list_step)
  from ok have r: "replay st0 (transfer_list s) = Inr s" by (simp add: run_ok_def)
  have full: "replay st0 (transfer_list ?s) = Inr ?s"
    unfolding tl by (simp add: replay_snoc [OF r] replay_one_step [OF z pos])
  have nn: "all_good g ?s" by (rule all_good_step [where g = g, OF step run_ok_good [OF ok] pos])
  have "\<exists>s'. replay st0 (take n (transfer_list ?s)) = Inr s' \<and> all_good g s' \<and>
        (n < length (transfer_list ?s) \<longrightarrow>
           transfer_miktari (transfer_list ?s ! n) =
             py_min (dict_get (need s') (alan_depo (transfer_list ?s ! n), transfer_madde (transfer_list ?s ! n)))
                    (dict_get (availability s') (gonderen_depo (transfer_list ?s ! n), transfer_madde (transfer_list ?s ! n))))"
    if n: "n \<le> length (transfer_list ?s)" for n
  proof (cases "n < length (transfer_list s)")
    case True
    with ok obtain s' where "replay st0 (take n (transfer_list s)) = Inr s'" "all_good g s'"
      "transfer_miktari (transfer_list s ! n) =
             py_min (dict_get (need s') (alan_depo (transfer_list s ! n), transfer_madde (transfer_list s ! n)))
                    (dict_get (availability s') (gonderen_depo (transfer_list s ! n), transfer_madde (transfer_list s ! n)))"
      unfolding run_ok_def by (meson less_imp_le)
    with True show ?thesis by (simp add: tl nth_append)
  next
    case False
    show ?thesis
    proof (cases "n = length (transfer_list s)")
      case True
      then show ?thesis
        using r run_ok_good [OF ok] by (simp add: tl nth_append)
    next
      case False
      with \<open>\<not> n < length (transfer_list s)\<close> n have "n = length (transfer_list ?s)" by (simp add: tl)
      then show ?thesis using full nn by simp
    qed
  qed
  with full show ?thesis unfolding run_ok_def by blast
qed

lemma all_good_initial:
  assumes "g 0"
    and "\<And>r. r \<in> set data \<Longrightarrow> g (clip_negative (ihtiyac r)) \<and> g (clip_negative (transfer_edilebilir r))"
  shows "all_good g (initial_state (map clean_row data))"
  unfolding all_good_def
  using assms
  by (auto simp: dict_get_def split: option.splits
       dest!: initial_need_SomeD initial_availability_SomeD)

lemma run_ok_initial:
  assumes "all_good g (initial_state (map clean_row data))"
  shows "run_ok g (initial_state (map clean_row data)) (initial_state (map clean_row data))"
proof -
  have "transfer_list (initial_state (map clean_row data)) = []" by (simp add: initial_state_def)
  then show ?thesis
    unfolding run_ok_def using assms by (simp add: replay_def)
qed

lemma run_good:
  assumes z: "(0::'q::{zero,ord,minus}) \<le> 0"
    and step: "\<And>a b :: 'q. g a \<Longrightarrow> g b \<Longrightarrow> \<not> a \<le> 0 \<Longrightarrow> \<not> b \<le> 0 \<Longrightarrow> g (a - py_min a b) \<and> g (b - py_min a b)"
    and "g 0"
    and "\<And>r. r \<in> set data \<Longrightarrow> g (clip_negative (ihtiyac r)) \<and> g (clip_negative (transfer_edilebilir r))"
  shows "\<exists>st. generate_transfer_list srt data = Inr st \<and> run_ok g (initial_state (map clean_row data)) st"
proof -
  have pres: "preserved (run_ok g (initial_state (map clean_row data))) site tip" for site tip
    unfolding preserved_def by (blast intro: run_ok_step [where g = g, OF z step])
  show ?thesis
    by (rule generate_transfer_list_preserved [OF z run_ok_initial [OF all_good_initial [OF assms(3,4)]] pres pres])
qed

lemma int_step:
  "0 \<le> a \<Longrightarrow> 0 \<le> b \<Longrightarrow> \<not> a \<le> 0 \<Longrightarrow> \<not> b \<le> 0 \<Longrightarrow> 0 \<le> a - py_min a b \<and> 0 \<le> b - py_min a (b::int)"
  by (simp add: py_min_def)

text \<open>
  Claim C2, for a table of whole numbers and for a table of finite doubles. The final
  state is the replay of the final ledger from the loaded state. For every \<open>n\<close> up to
  the length of the ledger, the state after the first \<open>n\<close> applied transfers (\<open>n = 0\<close>:
  the loaded state, with negative inputs clipped; \<open>n\<close> the length: the final state) has
  no negative need and no negative availability, and the next recorded quantity is
  \<open>min\<close> of the receiver's remaining need and the sender's remaining availability in
  that state. On doubles every value stays finite as well.
\<close>

theorem non_negativity:
  "(\<exists>st. generate_transfer_list srt (data :: int row list) = Inr st \<and>
      replay (initial_state (map clean_row data)) (transfer_list st) = Inr st \<and>
      (\<forall>n \<le> length (transfer_list st).
         \<exists>s. replay (initial_state (map clean_row data)) (take n (transfer_list st)) = Inr s \<and>
             (\<forall>k. 0 \<le> dict_get (need s) k \<and> 0 \<le> dict_get (availability s) k) \<and>
             (n < length (transfer_list st) \<longrightarrow>
                transfer_miktari (transfer_list st ! n) =
                  min (dict_get (need s) (alan_depo (transfer_list st ! n), transfer_madde (transfer_list st ! n)))
                      (dict_get (availability s) (gonderen_depo (transfer_list st ! n), transfer_madde (transfer_list st ! n)))))) \<and>
   ((\<forall>r \<in> set fdata. finite64 (ihtiyac r) \<and> finite64 (transfer_edilebilir r)) \<longrightarrow>
    (\<exists>st. generate_transfer_list fsrt (fdata :: float64 row list) = Inr st \<and>
      replay (initial_state (map clean_row fdata)) (transfer_list st) = Inr st \<and>
      (\<forall>n \<le> length (transfer_list st).
         \<exists>s. replay (initial_state (map clean_row fdata)) (take n (transfer_list st)) = Inr s \<and>
             (\<forall>k. 0 \<le> dict_get (need s) k \<and> finite64 (dict_get (need s) k) \<and>
                  0 \<le> dict_get (availability s) k \<and> finite64 (dict_get (availability s) k)) \<and>
             (n < length (transfer_list st) \<longrightarrow>
                transfer_miktari (transfer_list st ! n) =
                  py_min (dict_get (need s) (alan_depo (transfer_list st ! n), transfer_madde (transfer_list st ! n)))
                         (dict_get (availability s) (gonderen_depo (transfer_list st ! n), transfer_madde (transfer_list st ! n)))))))"
proof (intro conjI impI)
  have "\<exists>st. generate_transfer_list srt data = Inr st \<and> run_ok (\<lambda>x. 0 \<le> x) (initial_state (map clean_row data)) st"
    by (rule run_good [where g = "\<lambda>x. 0 \<le> x", OF order_refl int_step]) (simp_all add: clip_negative_def)
  then show "\<exists>st. generate_transfer_list srt data = Inr st \<and>
      replay (initial_state (map clean_row data)) (transfer_list st) = Inr st \<and>
      (\<forall>n \<le> length (transfer_list st).
         \<exists>s. replay (initial_state (map clean_row data)) (take n (transfer_list st)) = Inr s \<and>
             (\<forall>k. 0 \<le> dict_get (need s) k \<and> 0 \<le> dict_get (availability s) k) \<and>
             (n < length (transfer_list st) \<longrightarrow>
                transfer_miktari (transfer_list st ! n) =
                  min (dict_get (need s) (alan_depo (transfer_list st ! n), transfer_madde (transfer_list st ! n)))
                      (dict_get (availability s) (gonderen_depo (transfer_list st ! n), transfer_madde (transfer_list st ! n)))))"
    unfolding run_ok_def all_good_def py_min_eq_min .
next
  assume fin: "\<forall>r \<in> set fdata. finite64 (ihtiyac r) \<and> finite64 (transfer_edilebilir r)"
  have "\<exists>st. generate_transfer_list fsrt fdata = Inr st \<and> run_ok good64 (initial_state (map clean_row fdata)) st"
    by (rule run_good [where g = good64, OF float64_zero_le_zero good64_step good64_zero]) (use fin in \<open>auto intro: good64_clip\<close>)
  then obtain st where g: "generate_transfer_list fsrt fdata = Inr st"
    and ok: "run_ok good64 (initial_state (map clean_row fdata)) st" by blast
  have "all_good good64 s \<Longrightarrow> (\<forall>k. 0 \<le> dict_get (need s) k \<and> finite64 (dict_get (need s) k) \<and>
                  0 \<le> dict_get (availability s) k \<and> finite64 (dict_get (availability s) k))" for s :: "float64 state"
    unfolding all_good_def by (blast dest: good64_nonneg)
  with ok have "replay (initial_state (map clean_row fdata)) (transfer_list st) = Inr st \<and>
      (\<forall>n \<le> length (transfer_list st).
         \<exists>s. replay (initial_state (map clean_row fdata)) (take n (transfer_list st)) = Inr s \<and>
             (\<forall>k. 0 \<le> dict_get (need s) k \<and> finite64 (dict_get (need s) k) \<and>
                  0 \<le> dict_get (availability s) k \<and> finite64 (dict_get (availability s) k)) \<and>
             (n < length (transfer_list st) \<longrightarrow>
                transfer_miktari (transfer_list st ! n) =
                  py_min (dict_get (need s) (alan_depo (transfer_list st ! n), transfer_madde (transfer_list st ! n)))
                         (dict_get (availability s) (gonderen_depo (transfer_list st ! n), transfer_madde (transfer_list st ! n)))))"
    unfolding run_ok_def by meson
  with g show "\<exists>st. generate_transfer_list fsrt fdata = Inr st \<and>
      replay (initial_state (map clean_row fdata)) (transfer_list st) = Inr st \<and>
      (\<forall>n \<le> length (transfer_list st).
         \<exists>s. replay (initial_state (map clean_row fdata)) (take n (transfer_list st)) = Inr s \<and>
             (\<forall>k. 0 \<le> dict_get (need s) k \<and> finite64 (dict_get (need s) k) \<and>
                  0 \<le> dict_get (availability s) k \<and> finite64 (dict_get (availability s) k)) \<and>
             (n < length (transfer_list st) \<longrightarrow>
                transfer_miktari (transfer_list st ! n) =
                  py_min (dict_get (need s) (alan_depo (transfer_list st ! n), transfer_madde (transfer_list st ! n)))
                         (dict_get (availability s) (gonderen_depo (transfer_list st ! n), transfer_madde (transfer_list st ! n)))))"
    by blast
qed

theorem non_negativity_witness:
  "(\<exists>st. generate_transfer_list sort_values_desc example_rows = Inr st \<and>
     length (transfer_list st) = 3 \<and>
     (\<exists>s. replay (initial_state (map clean_row example_rows)) (take 2 (transfer_list st)) = Inr s \<and>
          dict_get (need s) (Some ''C'', Some ''X'') = 2 \<and> dict_get (availability s) (Some ''D'', Some ''X'') = 5 \<and>
          0 \<le> dict_get (need s) (Some ''C'', Some ''X'') \<and>
          transfer_miktari (transfer_list st ! 2) =
            min (dict_get (need s) (Some ''C'', Some ''X'')) (dict_get (availability s) (Some ''D'', Some ''X'')))) \<and>
   list_all (\<lambda>r. finite64 (ihtiyac r) \<and> finite64 (transfer_edilebilir r)) rounding_rows \<and>
   (\<exists>st. generate_transfer_list sort_values_desc rounding_rows = Inr st \<and>
     length (transfer_list st) = 3 \<and>
     (\<exists>s. replay (initial_state (map clean_row rounding_rows)) (take 2 (transfer_list st)) = Inr s \<and>
          dict_get (need s) (Some ''T'', Some ''X'') = Finite (4503599627370498 * unit53) \<and>
          0 \<le> dict_get (need s) (Some ''T'', Some ''X'') \<and>
          transfer_miktari (transfer_list st ! 2) =
            py_min (dict_get (need s) (Some ''T'', Some ''X'')) (dict_get (availability s) (Some ''C'', Some ''X''))))"
proof -
  have fin: "list_all (\<lambda>r. finite64 (ihtiyac r) \<and> finite64 (transfer_edilebilir r)) rounding_rows"
    by (simp add: rounding_rows_def unit53_le_max_units max_units_nonneg)
  have "\<exists>st. generate_transfer_list sort_values_desc example_rows = Inr st \<and>
     length (transfer_list st) = 3 \<and>
     (\<exists>s. replay (initial_state (map clean_row example_rows)) (take 2 (transfer_list st)) = Inr s \<and>
          dict_get (need s) (Some ''C'', Some ''X'') = 2 \<and> dict_get (availability s) (Some ''D'', Some ''X'') = 5 \<and>
          0 \<le> dict_get (need s) (Some ''C'', Some ''X'') \<and>
          transfer_miktari (transfer_list st ! 2) =
            min (dict_get (need s) (Some ''C'', Some ''X'')) (dict_get (availability s) (Some ''D'', Some ''X'')))"
    using non_negativity [of sort_values_desc example_rows rounding_rows sort_values_desc]
    by (simp add: example_rows_def engine_defs replay_def replay_one_def)
  moreover have "\<exists>st. generate_transfer_list sort_values_desc rounding_rows = Inr st \<and>
     length (transfer_list st) = 3 \<and>
     (\<exists>s. replay (initial_state (map clean_row rounding_rows)) (take 2 (transfer_list st)) = Inr s \<and>
          dict_get (need s) (Some ''T'', Some ''X'') = Finite (4503599627370498 * unit53) \<and>
          0 \<le> dict_get (need s) (Some ''T'', Some ''X'') \<and>
          transfer_miktari (transfer_list st ! 2) =
            py_min (dict_get (need s) (Some ''T'', Some ''X'')) (dict_get (availability s) (Some ''C'', Some ''X'')))"
    by (simp add: rounding_rows_def engine_defs float_defs replay_def replay_one_def)
  ultimately show ?thesis using fin by blast
qed

text \<open>
  The run on the table with infinite cells: S sends \<open>inf\<close> to T, which leaves
  \<open>inf - inf\<close>, NaN, as the need of T, as the availability of S and in the receiver's
  counter; NaN passes the guards of lines 92 and 46, so U sends \<open>min(nan, 1.0)\<close>, NaN.
\<close>

lemma infinite_rows_run:
  "\<exists>st. generate_transfer_list sort_values_desc infinite_rows = Inr st \<and>
     map gonderen_depo (transfer_list st) = [Some ''S'', Some ''U''] \<and>
     map alan_depo (transfer_list st) = [Some ''T'', Some ''T''] \<and>
     map transfer_miktari (transfer_list st) = [PInf, NaN] \<and>
     dict_get (need st) (Some ''T'', Some ''X'') = NaN \<and>
     dict_get (availability st) (Some ''S'', Some ''X'') = NaN \<and>
     dict_get (availability st) (Some ''U'', Some ''X'') = NaN"
  by (simp add: infinite_rows_def engine_defs float_defs)

text \<open>
  Claim C2 as stated fails on a table with an infinite cell: on \<open>infinite_rows\<close> the run
  records the quantities \<open>inf\<close> and NaN, and the final need of T and the final
  availability of S are NaN, for which \<open>0 \<le>\<close> is false.
\<close>

theorem non_negativity_counterexample:
  "\<not> isl (generate_transfer_list sort_values_desc infinite_rows) \<and>
   map transfer_miktari (transfer_list (projr (generate_transfer_list sort_values_desc infinite_rows)))
     = [PInf, NaN] \<and>
   dict_get (need (projr (generate_transfer_list sort_values_desc infinite_rows))) (Some ''T'', Some ''X'') = NaN \<and>
   \<not> 0 \<le> dict_get (need (projr (generate_transfer_list sort_values_desc infinite_rows))) (Some ''T'', Some ''X'') \<and>
   \<not> 0 \<le> dict_get (availability (projr (generate_transfer_list sort_values_desc infinite_rows))) (Some ''S'', Some ''X'')"
proof -
  obtain st where run: "generate_transfer_list sort_values_desc infinite_rows = Inr st"
    and q: "map transfer_miktari (transfer_list st) = [PInf, NaN]"
    and n: "dict_get (need st) (Some ''T'', Some ''X'') = NaN"
    and a: "dict_get (availability st) (Some ''S'', Some ''X'') = NaN"
    using infinite_rows_run by (elim exE conjE) (rule that)
  show ?thesis using run q n a by (simp add: less_eq_float64_def zero_float64_def)
qed

subsection \<open>The recorder contract\<close>




subsection \<open>Stage ordering\<close>

text \<open>
  Claim C4. The final ledger splits at some position into rows flagged "Bolge ici"
  followed by rows flagged "Bolge disi": no Stage 2 row precedes a Stage 1 row.
\<close>

theorem stage_ordering:
  "\<exists>st. generate_transfer_list srt (data :: 'q::linordered_idom row list) = Inr st \<and>
     (\<exists>n. (\<forall>t \<in> set (take n (transfer_list st)). transfer_tipi t = Bolge_ici) \<and>
          (\<forall>t \<in> set (drop n (transfer_list st)). transfer_tipi t = Bolge_disi))"
proof -
  define df where "df = map clean_row data"
  define I1 where "I1 = (\<lambda>s :: 'q state. \<forall>t \<in> set (transfer_list s). transfer_tipi t = Bolge_ici)"
  have "I1 (initial_state df)"
    by (simp add: I1_def initial_state_def)
  moreover have "preserved I1 (stage1_site srt df) Bolge_ici"
    unfolding preserved_def I1_def by (auto simp: transfer_list_step)
  ultimately obtain st1 where s1: "stage1 srt df (initial_state df) = Inr st1" and i1: "I1 st1"
    using stage1_preserved_lin [of I1] by blast
  define I2 where "I2 = (\<lambda>s :: 'q state. \<exists>ys. transfer_list s = transfer_list st1 @ ys \<and>
     (\<forall>t \<in> set ys. transfer_tipi t = Bolge_disi))"
  have "I2 st1" by (simp add: I2_def)
  moreover have "preserved I2 (\<lambda>s r i. True) Bolge_disi"
    unfolding preserved_def I2_def by (auto simp: transfer_list_step)
  ultimately obtain st ys where s2: "stage2 srt df st1 = Inr st"
    and tl: "transfer_list st = transfer_list st1 @ ys"
    and ys: "\<forall>t \<in> set ys. transfer_tipi t = Bolge_disi"
    using stage2_preserved_lin [of I2 st1 srt df] unfolding I2_def by blast
  have "generate_transfer_list srt data = Inr st"
    using s1 s2 by (simp add: generate_transfer_list_def df_def Let_def)
  moreover have "(\<forall>t \<in> set (take (length (transfer_list st1)) (transfer_list st)). transfer_tipi t = Bolge_ici) \<and>
          (\<forall>t \<in> set (drop (length (transfer_list st1)) (transfer_list st)). transfer_tipi t = Bolge_disi)"
    using i1 ys by (simp add: tl I1_def)
  ultimately show ?thesis by blast
qed

theorem stage_ordering_witness:
  "\<exists>st. generate_transfer_list sort_values_desc example_rows = Inr st \<and>
     map transfer_tipi (transfer_list st) = [Bolge_ici, Bolge_ici, Bolge_disi]"
  using stage_ordering [of sort_values_desc example_rows]
  by (simp add: example_rows_def engine_defs)

subsection \<open>Order among equal values\<close>

text \<open>
  Claim C5 is about the order \<open>sort_values\<close> gives to rows of equal value. The source
  calls it with one column and \<open>ascending=False\<close> and passes no \<open>kind\<close>; which order
  equal rows take is decided inside pandas, not in \<open>app.py\<close>. With the stable sorter
  \<open>sort_values_desc\<close> equal rows keep their frame order; \<open>ties_reversed\<close> is as much a
  descending sort of the same rows and reverses them. The candidate order among ties
  is the sorter's.
\<close>

lemma ties_reversed_descending:
  "set (ties_reversed xs) = set xs \<and> length (ties_reversed xs) = length xs \<and>
   sorted_wrt (\<lambda>a b. snd b \<le> snd a) (ties_reversed xs)"
proof -
  have "sorted (map snd (sort_key snd xs))" by (rule sorted_sort_key)
  then have "sorted_wrt (\<lambda>a b. snd a \<le> snd b) (sort_key snd xs)"
    by (simp add: sorted_map)
  then show ?thesis
    by (simp add: ties_reversed_def sorted_wrt_rev)
qed

lemma ties_follow_the_sorter:
  "candidates sort_values_desc [(Some ''A'', Some ''X'') \<mapsto> 5 :: int, (Some ''B'', Some ''X'') \<mapsto> 5]
     [Some ''A'', Some ''B''] (Some ''X'') = [(Some ''A'', 5), (Some ''B'', 5)] \<and>
   candidates ties_reversed [(Some ''A'', Some ''X'') \<mapsto> 5 :: int, (Some ''B'', Some ''X'') \<mapsto> 5]
     [Some ''A'', Some ''B''] (Some ''X'') = [(Some ''B'', 5), (Some ''A'', 5)]"
  by (simp add: candidates_def dict_get_def sort_values_desc_def ties_reversed_def)

subsection \<open>Regional containment\<close>

text \<open>
  Claim C6. For a sorter that returns only rows of the frame it is given: for every
  recorded instruction flagged "Bolge ici" there is a region manager with a row of the
  sending depot and a row of the receiving depot, both for the instruction's item, in
  the input table.
\<close>

theorem regional_containment:
  assumes "\<And>xs. set (srt xs) \<subseteq> set xs"
  shows "\<exists>st. generate_transfer_list srt (data :: 'q::linordered_idom row list) = Inr st \<and>
     (\<forall>t \<in> set (transfer_list st). transfer_tipi t = Bolge_ici \<longrightarrow>
        (\<exists>manager. \<exists>r1 \<in> set data. \<exists>r2 \<in> set data.
           bolge_muduru r1 = Some manager \<and> bolge_muduru r2 = Some manager \<and>
           depo_kodu r1 = gonderen_depo t \<and> depo_kodu r2 = alan_depo t \<and>
           madde_kodu r1 = transfer_madde t \<and> madde_kodu r2 = transfer_madde t))"
proof -
  define I where "I = (\<lambda>s :: 'q state. \<forall>t \<in> set (transfer_list s). transfer_tipi t = Bolge_ici \<longrightarrow>
        (\<exists>manager. \<exists>r1 \<in> set data. \<exists>r2 \<in> set data.
           bolge_muduru r1 = Some manager \<and> bolge_muduru r2 = Some manager \<and>
           depo_kodu r1 = gonderen_depo t \<and> depo_kodu r2 = alan_depo t \<and>
           madde_kodu r1 = transfer_madde t \<and> madde_kodu r2 = transfer_madde t))"
  have init: "I (initial_state (map clean_row data))"
    by (simp add: I_def initial_state_def)
  have p1: "preserved I (stage1_site srt (map clean_row data)) Bolge_ici"
    unfolding preserved_def
  proof (intro allI impI)
    fix s send recv item_code
    assume "I s" and site: "stage1_site srt (map clean_row data) send recv item_code"
    from stage1_site_D [OF assms site] \<open>I s\<close>
    show "I (transfer_step s send recv item_code Bolge_ici)"
      unfolding I_def by (simp add: transfer_list_step)
  qed
  have p2: "preserved I (\<lambda>s r i. True) Bolge_disi"
    unfolding preserved_def I_def by (simp add: transfer_list_step)
  from generate_transfer_list_preserved_lin [of I, OF init p1 p2]
  show ?thesis unfolding I_def .
qed

theorem regional_containment_witness:
  "\<exists>st. generate_transfer_list sort_values_desc example_rows = Inr st \<and>
     hd (transfer_list st) = \<lparr>transfer_tipi = Bolge_ici, gonderen_depo = Some ''A'', alan_depo = Some ''C'',
                               transfer_madde = Some ''X'', transfer_miktari = 4\<rparr> \<and>
     bolge_muduru (example_rows ! 0) = Some ''R1'' \<and> depo_kodu (example_rows ! 0) = Some ''A'' \<and>
     bolge_muduru (example_rows ! 2) = Some ''R1'' \<and> depo_kodu (example_rows ! 2) = Some ''C''"
  using regional_containment [of sort_values_desc example_rows]
  by (simp add: set_sort_values_desc example_rows_def engine_defs)

subsection \<open>Self-transfer\<close>

text \<open>
  Claim C7 fails on a table with an empty depot cell that is still NaN after
  \<open>astype(str)\<close>. The depot of that row is in both candidate frames; the guard
  \<open>send == recv\<close> of line 88 compares NaN with NaN, which is false, so the depot is
  recorded as sending 3 to itself, before B sends it 1.
\<close>

theorem self_transfer_of_empty_depot_code:
  "\<not> isl (generate_transfer_list sort_values_desc nan_depot_rows) \<and>
   transfer_list (projr (generate_transfer_list sort_values_desc nan_depot_rows)) =
       [\<lparr>transfer_tipi = Bolge_ici, gonderen_depo = None, alan_depo = None,
         transfer_madde = Some ''X'', transfer_miktari = 3\<rparr>,
        \<lparr>transfer_tipi = Bolge_ici, gonderen_depo = Some ''B'', alan_depo = None,
         transfer_madde = Some ''X'', transfer_miktari = 1\<rparr>]"
  by (simp add: nan_depot_rows_def engine_defs)

text \<open>
  The guard does its work for every depot that has a code: a recorded instruction
  whose sender is its receiver has the empty code.
\<close>

lemma no_self_transfer_of_named_depots:
  "\<exists>st. generate_transfer_list srt (data :: 'q::linordered_idom row list) = Inr st \<and>
     (\<forall>t \<in> set (transfer_list st). gonderen_depo t = alan_depo t \<longrightarrow> gonderen_depo t = None)"
proof -
  define I where "I = (\<lambda>s :: 'q state. \<forall>t \<in> set (transfer_list s). gonderen_depo t = alan_depo t \<longrightarrow> gonderen_depo t = None)"
  have init: "I (initial_state (map clean_row data))"
    by (simp add: I_def initial_state_def)
  have pres: "preserved I site tip" for site tip
    unfolding preserved_def I_def by (auto simp: transfer_list_step py_eq_def)
  from generate_transfer_list_preserved_lin [of I, OF init pres pres]
  show ?thesis unfolding I_def .
qed

subsection \<open>Zero tables\<close>

text \<open>
  Claim C8. On a table whose needs are all 0 after clipping, and on a table whose
  transferable quantities are all 0 after clipping, the run ends with an empty ledger
  (and the dictionaries as loaded).
\<close>

theorem idempotence_of_zero:
  assumes "(\<forall>r \<in> set data. clip_negative (ihtiyac r) = 0) \<or>
           (\<forall>r \<in> set data. clip_negative (transfer_edilebilir r) = 0)"
  shows "\<exists>st. generate_transfer_list srt (data :: 'q::linordered_idom row list) = Inr st \<and> transfer_list st = [] \<and>
           st = initial_state (map clean_row data)"
proof -
  define st0 where "st0 = initial_state (map clean_row data)"
  have z: "(\<forall>k. dict_get (need st0) k = 0) \<or> (\<forall>k. dict_get (availability st0) k = 0)"
    using assms unfolding st0_def
    by (auto simp: dict_get_def split: option.splits
          dest!: initial_need_SomeD initial_availability_SomeD)
  define I where "I = (\<lambda>s :: 'q state. s = st0)"
  have pres: "preserved I site tip" for site tip
    unfolding preserved_def I_def using z by auto
  have "I (initial_state (map clean_row data))" by (simp add: I_def st0_def)
  from generate_transfer_list_preserved_lin [of I, OF this pres pres]
  show ?thesis by (simp add: I_def st0_def initial_state_def)
qed

theorem idempotence_of_zero_witness:
  "list_all (\<lambda>r. clip_negative (ihtiyac r) = 0) zero_need_rows \<and>
   (\<exists>st. generate_transfer_list sort_values_desc zero_need_rows = Inr st \<and> transfer_list st = []) \<and>
   list_all (\<lambda>r. clip_negative (transfer_edilebilir r) = 0) zero_availability_rows \<and>
   (\<exists>st. generate_transfer_list sort_values_desc zero_availability_rows = Inr st \<and> transfer_list st = [])"
  using idempotence_of_zero [of zero_need_rows sort_values_desc]
    idempotence_of_zero [of zero_availability_rows sort_values_desc]
  by (simp add: zero_need_rows_def zero_availability_rows_def clip_negative_def)

subsection \<open>Exhaustiveness\<close>

















subsection \<open>Key presence\<close>

text \<open>
  Claim C10. The run never raises \<open>KeyError\<close>: it returns a state, for every table and
  every sorter. The two dictionaries keep the keys they were loaded with, and for every
  recorded instruction (every call of \<open>apply_transfer\<close> with \<open>qty > 0\<close> records one before
  it subscripts) the key (sender, item) is in \<open>availability\<close> and the key
  (receiver, item) is in \<open>need\<close>.
\<close>

theorem key_presence:
  "\<exists>st. generate_transfer_list srt (data :: 'q::linordered_idom row list) = Inr st \<and>
     dom (need st) = dom (need (initial_state (map clean_row data))) \<and>
     dom (availability st) = dom (availability (initial_state (map clean_row data))) \<and>
     (\<forall>t \<in> set (transfer_list st).
        (gonderen_depo t, transfer_madde t) \<in> dom (availability (initial_state (map clean_row data))) \<and>
        (alan_depo t, transfer_madde t) \<in> dom (need (initial_state (map clean_row data))))"
proof -
  define st0 where "st0 = initial_state (map clean_row data)"
  define I where "I = (\<lambda>s :: 'q state.
     dom (need s) = dom (need st0) \<and> dom (availability s) = dom (availability st0) \<and>
     (\<forall>t \<in> set (transfer_list s).
        (gonderen_depo t, transfer_madde t) \<in> dom (availability st0) \<and>
        (alan_depo t, transfer_madde t) \<in> dom (need st0)))"
  have init: "I (initial_state (map clean_row data))"
    by (simp add: I_def st0_def initial_state_def)
  have pres: "preserved I site tip" for site tip
    unfolding preserved_def I_def
    by (auto simp: transfer_list_step dom_need_step dom_availability_step not_le dest: dict_get_pos_dom)
  from generate_transfer_list_preserved_lin [of I, OF init pres pres]
  show ?thesis unfolding I_def st0_def .
qed

theorem key_presence_witness:
  "\<exists>st. generate_transfer_list sort_values_desc example_rows = Inr st \<and>
     hd (transfer_list st) = \<lparr>transfer_tipi = Bolge_ici, gonderen_depo = Some ''A'', alan_depo = Some ''C'',
                               transfer_madde = Some ''X'', transfer_miktari = 4\<rparr> \<and>
     availability (initial_state (map clean_row example_rows)) (Some ''A'', Some ''X'') = Some 4 \<and>
     need (initial_state (map clean_row example_rows)) (Some ''C'', Some ''X'') = Some 10"
  using key_presence [of sort_values_desc example_rows]
  by (simp add: example_rows_def engine_defs)

end
